theory Spec2Isabelle
  imports Main "HOL-Library.Char_ord" "HOL-Library.List_Lexorder"
begin

section \<open>Values, dictionaries and the converter's options\<close>

text \<open>
  The values that \<^verbatim>\<open>json.loads\<close> builds: \<^verbatim>\<open>None\<close>, \<^verbatim>\<open>bool\<close>, \<^verbatim>\<open>int\<close>,
  \<^verbatim>\<open>float\<close>, \<^verbatim>\<open>str\<close>, \<^verbatim>\<open>list\<close> and \<^verbatim>\<open>dict\<close>. The converter never computes
  with a float, it only prints it, so a float is carried as the text that \<^verbatim>\<open>str\<close> gives
  for it. A \<^verbatim>\<open>dict\<close> keeps its insertion order: it is an association list.
  Strings are lists of \<open>char\<close>, read as code points below 256.
\<close>

datatype json =
    JNull
  | JBool bool
  | JInt int
  | JFloat string
  | JStr string
  | JList "json list"
  | JObject "(string \<times> json) list"

type_synonym pydict = "(string \<times> json) list"

datatype error = ValueError string

text \<open>The five attributes that \<^verbatim>\<open>JSONToCSVConverter.__init__\<close> stores.\<close>

record converter =
  delimiter :: char
  fields_opt :: "string list option"
  no_header :: bool
  list_handling :: string
  join_string :: string

text \<open>
  \<^verbatim>\<open>d[k] = v\<close>: an existing key keeps its place and gets the new value, a new key goes
  to the end. \<^verbatim>\<open>d.update(other)\<close> stores the items of \<^verbatim>\<open>other\<close> in their order.
\<close>

fun dict_set :: "pydict \<Rightarrow> string \<Rightarrow> json \<Rightarrow> pydict" where
  "dict_set [] k v = [(k, v)]"
| "dict_set ((k', v') # d) k v = (if k' = k then (k', v) # d else (k', v') # dict_set d k v)"

fun dict_update :: "pydict \<Rightarrow> pydict \<Rightarrow> pydict" where
  "dict_update d [] = d"
| "dict_update d ((k, v) # other) = dict_update (dict_set d k v) other"

definition keys :: "pydict \<Rightarrow> string list" where
  "keys d = map fst d"

section \<open>Printing values: \<^verbatim>\<open>str\<close> and \<^verbatim>\<open>repr\<close>\<close>

definition digit_char :: "nat \<Rightarrow> char" where
  "digit_char n = char_of (48 + n)"

function str_nat :: "nat \<Rightarrow> string" where
  "str_nat n = (if n < 10 then [digit_char n] else str_nat (n div 10) @ [digit_char (n mod 10)])"
  by pat_completeness auto
termination
  by (relation "measure (\<lambda>n. n)") auto

declare str_nat.simps [simp del]

definition str_int :: "int \<Rightarrow> string" where
  "str_int i = (if i < 0 then CHR ''-'' # str_nat (nat (- i)) else str_nat (nat i))"

definition hex_char :: "nat \<Rightarrow> char" where
  "hex_char n = (if n < 10 then char_of (48 + n) else char_of (87 + n))"

definition printable :: "char \<Rightarrow> bool" where
  "printable c = (let n = (of_char c :: nat) in
     (32 \<le> n \<and> n < 127) \<or> (161 \<le> n \<and> n \<noteq> 173))"

definition repr_char :: "char \<Rightarrow> char \<Rightarrow> string" where
  "repr_char q c =
     (if c = q \<or> c = CHR 0x5C then [CHR 0x5C, c]
      else if c = CHR 0x09 then [CHR 0x5C, CHR ''t'']
      else if c = CHR 0x0A then [CHR 0x5C, CHR ''n'']
      else if c = CHR 0x0D then [CHR 0x5C, CHR ''r'']
      else if printable c then [c]
      else [CHR 0x5C, CHR ''x'', hex_char (of_char c div 16), hex_char (of_char c mod 16)])"

definition repr_str :: "string \<Rightarrow> string" where
  "repr_str s =
     (let q = (if CHR 0x27 \<in> set s \<and> CHR 0x22 \<notin> set s then CHR 0x22 else CHR 0x27)
      in q # concat (map (repr_char q) s) @ [q])"

text \<open>\<^verbatim>\<open>sep.join(parts)\<close>.\<close>

fun join :: "string \<Rightarrow> string list \<Rightarrow> string" where
  "join sep [] = []"
| "join sep [x] = x"
| "join sep (x # y # ys) = x @ sep @ join sep (y # ys)"

fun py_repr :: "json \<Rightarrow> string"
  and repr_list :: "json list \<Rightarrow> string list"
  and repr_items :: "(string \<times> json) list \<Rightarrow> string list"
where
  "py_repr JNull = ''None''"
| "py_repr (JBool b) = (if b then ''True'' else ''False'')"
| "py_repr (JInt i) = str_int i"
| "py_repr (JFloat r) = r"
| "py_repr (JStr s) = repr_str s"
| "py_repr (JList vs) = ''['' @ join '', '' (repr_list vs) @ '']''"
| "py_repr (JObject kvs) = ''{'' @ join '', '' (repr_items kvs) @ ''}''"
| "repr_list [] = []"
| "repr_list (v # vs) = py_repr v # repr_list vs"
| "repr_items [] = []"
| "repr_items ((k, v) # kvs) = (repr_str k @ '': '' @ py_repr v) # repr_items kvs"

definition py_str :: "json \<Rightarrow> string" where
  "py_str v = (case v of JStr s \<Rightarrow> s | _ \<Rightarrow> py_repr v)"

section \<open>The flattener\<close>

definition new_key :: "string \<Rightarrow> string \<Rightarrow> string" where
  "new_key prefix key = (if prefix \<noteq> [] then prefix @ ''.'' @ key else key)"

text \<open>The loop of the \<^verbatim>\<open>index\<close> policy: \<^verbatim>\<open>flattened[f"{new_key}.{i}"] = item\<close>.\<close>

fun index_items :: "string \<Rightarrow> nat \<Rightarrow> json list \<Rightarrow> pydict \<Rightarrow> pydict" where
  "index_items nk i [] flattened = flattened"
| "index_items nk i (item # items) flattened =
     index_items nk (Suc i) items (dict_set flattened (nk @ ''.'' @ str_nat i) item)"

definition flatten_list :: "converter \<Rightarrow> string \<Rightarrow> json list \<Rightarrow> pydict \<Rightarrow> pydict" where
  "flatten_list cfg nk vs flattened =
     (if list_handling cfg = ''join''
        then dict_set flattened nk (JStr (join (join_string cfg) (map py_str vs)))
      else if list_handling cfg = ''index''
        then index_items nk 0 vs flattened
      else dict_set flattened nk (JList vs))"

text \<open>
  The loop of \<^verbatim>\<open>_flatten_object\<close> over \<^verbatim>\<open>obj.items()\<close>, with the dictionary
  \<^verbatim>\<open>flattened\<close> it fills as the last argument.
\<close>

function flatten_items :: "converter \<Rightarrow> string \<Rightarrow> (string \<times> json) list \<Rightarrow> pydict \<Rightarrow> pydict" where
  "flatten_items cfg prefix [] flattened = flattened"
| "flatten_items cfg prefix ((key, JObject obj) # rest) flattened =
     flatten_items cfg prefix rest
       (dict_update flattened (flatten_items cfg (new_key prefix key) obj []))"
| "flatten_items cfg prefix ((key, JList vs) # rest) flattened =
     flatten_items cfg prefix rest (flatten_list cfg (new_key prefix key) vs flattened)"
| "flatten_items cfg prefix ((key, JNull) # rest) flattened =
     flatten_items cfg prefix rest (dict_set flattened (new_key prefix key) JNull)"
| "flatten_items cfg prefix ((key, JBool b) # rest) flattened =
     flatten_items cfg prefix rest (dict_set flattened (new_key prefix key) (JBool b))"
| "flatten_items cfg prefix ((key, JInt i) # rest) flattened =
     flatten_items cfg prefix rest (dict_set flattened (new_key prefix key) (JInt i))"
| "flatten_items cfg prefix ((key, JFloat r) # rest) flattened =
     flatten_items cfg prefix rest (dict_set flattened (new_key prefix key) (JFloat r))"
| "flatten_items cfg prefix ((key, JStr s) # rest) flattened =
     flatten_items cfg prefix rest (dict_set flattened (new_key prefix key) (JStr s))"
  by pat_completeness auto
termination
  by (relation "measure (\<lambda>(cfg, prefix, items, flattened). size_list (size_prod (\<lambda>k. 0) size) items)")
     auto

definition flatten_object :: "converter \<Rightarrow> (string \<times> json) list \<Rightarrow> string \<Rightarrow> pydict" where
  "flatten_object cfg obj prefix = flatten_items cfg prefix obj []"

definition wrap_value :: "json \<Rightarrow> pydict" where
  "wrap_value item = [(''value'', item)]"

fun json_to_records :: "converter \<Rightarrow> json list \<Rightarrow> pydict list" where
  "json_to_records cfg [] = []"
| "json_to_records cfg (JObject obj # json_data) =
     flatten_object cfg obj [] # json_to_records cfg json_data"
| "json_to_records cfg (item # json_data) = wrap_value item # json_to_records cfg json_data"

section \<open>The projector\<close>

text \<open>\<^verbatim>\<open>record[field] if field in record else None\<close>, stored for each requested field in turn.\<close>

fun filter_record :: "pydict \<Rightarrow> string list \<Rightarrow> pydict \<Rightarrow> pydict" where
  "filter_record record [] filtered_record = filtered_record"
| "filter_record record (field # fields') filtered_record =
     filter_record record fields'
       (dict_set filtered_record field
          (case map_of record field of Some v \<Rightarrow> v | None \<Rightarrow> JNull))"

fun filter_fields :: "pydict list \<Rightarrow> string list \<Rightarrow> pydict list" where
  "filter_fields [] fields' = []"
| "filter_fields (record # records) fields' =
     filter_record record fields' [] # filter_fields records fields'"

section \<open>The two library calls: \<^verbatim>\<open>json.loads\<close> and the \<^verbatim>\<open>csv\<close> writer\<close>

text \<open>
  Neither is code of the converter. The decoder is a parameter: \<open>json_loads lib s\<close> is
  \<open>Inr v\<close> when \<^verbatim>\<open>json.loads(s)\<close> returns \<open>v\<close> and \<open>Inl reason\<close> when it raises
  \<^verbatim>\<open>JSONDecodeError\<close>, \<open>reason\<close> being the text of the exception. Every theorem below
  holds for every decoder.

  The writer is the one the converter builds: \<^verbatim>\<open>csv.DictWriter\<close> with
  \<^verbatim>\<open>QUOTE_MINIMAL\<close>, the quote character \<^verbatim>\<open>"\<close>, \<^verbatim>\<open>doublequote\<close> on, no escape
  character, the line terminator \<^verbatim>\<open>\n\<close>, \<^verbatim>\<open>restval=''\<close>. It is modelled after
  CPython's \<^verbatim>\<open>Modules/_csv.c\<close> and \<^verbatim>\<open>Lib/csv.py\<close>: a field is quoted when it holds
  the delimiter, the quote character, a line feed or a carriage return.

  The delimiter is one character, as the writer requires. With
  \<^verbatim>\<open>extrasaction='raise'\<close> the writer rejects a row that has a key outside
  \<^verbatim>\<open>fieldnames\<close>; the converter passes the keys of all rows as \<^verbatim>\<open>fieldnames\<close>, so
  this cannot happen (\<open>fieldnames_cover_keys\<close> below) and the model has no such branch.
\<close>

record library =
  json_loads :: "string \<Rightarrow> string + json"

definition must_quote :: "char \<Rightarrow> char \<Rightarrow> bool" where
  "must_quote delim c =
     (c = delim \<or> c = CHR 0x22 \<or> c = CHR 0x0A \<or> c = CHR 0x0D)"

text \<open>
  \<^verbatim>\<open>join_append_data\<close>: the characters of one field go to the record buffer, a quote
  character is written twice, and \<open>quoted\<close> is set by the first character that needs it.
\<close>

fun join_append_data :: "char \<Rightarrow> string \<Rightarrow> string \<times> bool \<Rightarrow> string \<times> bool" where
  "join_append_data delim [] (buf, quoted) = (buf, quoted)"
| "join_append_data delim (c # cs) (buf, quoted) =
     (if must_quote delim c
      then (if c = CHR 0x22
            then join_append_data delim cs (buf @ [CHR 0x22, c], True)
            else join_append_data delim cs (buf @ [c], True))
      else join_append_data delim cs (buf @ [c], quoted))"

definition csv_field :: "char \<Rightarrow> string \<Rightarrow> string" where
  "csv_field delim s =
     (case join_append_data delim s ([], False) of
        (buf, quoted) \<Rightarrow> if quoted then [CHR 0x22] @ buf @ [CHR 0x22] else buf)"

text \<open>
  \<^verbatim>\<open>csv_writerow\<close>: the fields separated by the delimiter; a record that has fields and
  is still empty (one field, the empty string) is written as \<^verbatim>\<open>""\<close>; then the line
  terminator.
\<close>

definition writerow :: "char \<Rightarrow> string list \<Rightarrow> string" where
  "writerow delim row =
     (let rec = join [delim] (map (csv_field delim) row)
      in (if row \<noteq> [] \<and> rec = [] then [CHR 0x22, CHR 0x22] else rec) @ [CHR 0x0A])"

text \<open>What the writer prints for a value: nothing for \<^verbatim>\<open>None\<close>, else \<^verbatim>\<open>str(value)\<close>.\<close>

definition cell_text :: "json \<Rightarrow> string" where
  "cell_text v = (case v of JNull \<Rightarrow> [] | _ \<Rightarrow> py_str v)"

text \<open>\<^verbatim>\<open>rowdict.get(key, self.restval)\<close> for each key of \<^verbatim>\<open>fieldnames\<close>.\<close>

definition dict_to_list :: "string list \<Rightarrow> pydict \<Rightarrow> json list" where
  "dict_to_list fieldnames rowdict =
     map (\<lambda>key. case map_of rowdict key of Some v \<Rightarrow> v | None \<Rightarrow> JStr []) fieldnames"

definition dict_writerow :: "char \<Rightarrow> string list \<Rightarrow> pydict \<Rightarrow> string" where
  "dict_writerow delim fieldnames rowdict =
     writerow delim (map cell_text (dict_to_list fieldnames rowdict))"

definition writeheader :: "char \<Rightarrow> string list \<Rightarrow> string" where
  "writeheader delim fieldnames = writerow delim fieldnames"

section \<open>The writer of the converter\<close>

text \<open>\<^verbatim>\<open>fieldnames.update(record.keys())\<close> for each record, then \<^verbatim>\<open>sorted(fieldnames)\<close>.\<close>

fun collect_fieldnames :: "pydict list \<Rightarrow> string set \<Rightarrow> string set" where
  "collect_fieldnames [] fieldnames = fieldnames"
| "collect_fieldnames (record # records) fieldnames =
     collect_fieldnames records (fieldnames \<union> set (keys record))"

definition sorted_fieldnames :: "pydict list \<Rightarrow> string list" where
  "sorted_fieldnames records = sorted_list_of_set (collect_fieldnames records {})"

text \<open>The output stream is the text written so far; each \<^verbatim>\<open>writerow\<close> appends to it.\<close>

fun write_rows :: "char \<Rightarrow> string list \<Rightarrow> pydict list \<Rightarrow> string \<Rightarrow> string" where
  "write_rows delim fieldnames [] out = out"
| "write_rows delim fieldnames (record # records) out =
     write_rows delim fieldnames records (out @ dict_writerow delim fieldnames record)"

definition write_csv :: "converter \<Rightarrow> pydict list \<Rightarrow> string \<Rightarrow> string" where
  "write_csv cfg records out =
     (if records = [] then out
      else
        let fieldnames = sorted_fieldnames records;
            out1 = (if \<not> no_header cfg then out @ writeheader (delimiter cfg) fieldnames
                    else out)
        in write_rows (delimiter cfg) fieldnames records out1)"

section \<open>The parser\<close>

text \<open>\<^verbatim>\<open>str.isspace\<close> on the code points below 256, \<^verbatim>\<open>str.strip()\<close> and \<^verbatim>\<open>str.split('\n')\<close>.\<close>

definition py_isspace :: "char \<Rightarrow> bool" where
  "py_isspace c = (let n = (of_char c :: nat) in
     (9 \<le> n \<and> n \<le> 13) \<or> (28 \<le> n \<and> n \<le> 32) \<or> n = 133 \<or> n = 160)"

definition strip :: "string \<Rightarrow> string" where
  "strip s = rev (dropWhile py_isspace (rev (dropWhile py_isspace s)))"

fun split_from :: "string \<Rightarrow> string \<Rightarrow> string list" where
  "split_from cur [] = [cur]"
| "split_from cur (c # cs) =
     (if c = CHR 0x0A then cur # split_from [] cs else split_from (cur @ [c]) cs)"

definition split_lines :: "string \<Rightarrow> string list" where
  "split_lines s = split_from [] s"

text \<open>The loop of \<^verbatim>\<open>_parse_ndjson\<close> over \<^verbatim>\<open>enumerate(lines, 1)\<close>.\<close>

fun ndjson_loop :: "library \<Rightarrow> nat \<Rightarrow> string list \<Rightarrow> json list \<Rightarrow> error + json list" where
  "ndjson_loop lib line_num [] records = Inr records"
| "ndjson_loop lib line_num (line # lines) records =
     (let line' = strip line in
      if line' = [] then ndjson_loop lib (Suc line_num) lines records
      else
        (case json_loads lib line' of
           Inr (JObject obj) \<Rightarrow> ndjson_loop lib (Suc line_num) lines (records @ [JObject obj])
         | Inr _ \<Rightarrow> Inl (ValueError (''Line '' @ str_nat line_num @ '': Expected JSON object''))
         | Inl e \<Rightarrow> Inl (ValueError (''Line '' @ str_nat line_num @ '': Invalid JSON - '' @ e))))"

definition parse_ndjson :: "library \<Rightarrow> string \<Rightarrow> error + json list" where
  "parse_ndjson lib content = ndjson_loop lib 1 (split_lines (strip content)) []"

definition parse_json :: "library \<Rightarrow> string \<Rightarrow> error + json list" where
  "parse_json lib input =
     (let content = strip input in
      if content = [] then Inr []
      else
        (case json_loads lib content of
           Inr (JList data) \<Rightarrow> Inr data
         | Inr (JObject obj) \<Rightarrow> Inr [JObject obj]
         | Inr _ \<Rightarrow> Inl (ValueError ''JSON must be an object or array'')
         | Inl e \<Rightarrow> parse_ndjson lib content))"

section \<open>The conversion\<close>

text \<open>
  \<open>convert lib cfg input out\<close> is the pair of the exception raised, if any, and the
  contents of the output stream afterwards, \<open>out\<close> being its contents before.
\<close>

definition project :: "converter \<Rightarrow> pydict list \<Rightarrow> pydict list" where
  "project cfg records =
     (case fields_opt cfg of
        Some (f # fs) \<Rightarrow> filter_fields records (f # fs)
      | _ \<Rightarrow> records)"

definition convert :: "library \<Rightarrow> converter \<Rightarrow> string \<Rightarrow> string \<Rightarrow> error option \<times> string" where
  "convert lib cfg input out =
     (case parse_json lib input of
        Inl e \<Rightarrow> (Some e, out)
      | Inr json_data \<Rightarrow>
          (None, write_csv cfg (project cfg (json_to_records cfg json_data)) out))"

section \<open>Kinds of values, default options and sample documents\<close>

fun is_object :: "json \<Rightarrow> bool" where
  "is_object (JObject obj) = True"
| "is_object v = False"

fun is_list :: "json \<Rightarrow> bool" where
  "is_list (JList vs) = True"
| "is_list v = False"

text \<open>The default values of the parameters of \<^verbatim>\<open>JSONToCSVConverter.__init__\<close>.\<close>

definition default_cfg :: converter where
  "default_cfg = \<lparr>delimiter = CHR '','', fields_opt = None, no_header = False,
     list_handling = ''join'', join_string = ''|''\<rparr>"

text \<open>
  A decoder for the concrete examples: it knows the documents listed here, each with
  what \<^verbatim>\<open>json.loads\<close> gives for it, and rejects every other text the way
  \<^verbatim>\<open>json.loads\<close> rejects a text that does not begin a JSON value.
\<close>

definition sample_documents :: "(string \<times> (string + json)) list" where
  \<open>sample_documents =
    [(''42'', Inr (JInt 42)),
     (''{"a": 1}'', Inr (JObject [(''a'', JInt 1)])),
     (''{"tags": ["x", "y"]}'', Inr (JObject [(''tags'', JList [JStr ''x'', JStr ''y''])])),
     (''[{"z": 1, "a": 2}]'', Inr (JList [JObject [(''z'', JInt 1), (''a'', JInt 2)]])),
     (''[{"b": 1}, {"a": 2}]'',
        Inr (JList [JObject [(''b'', JInt 1)], JObject [(''a'', JInt 2)]])),
     (''[[1, 2]]'', Inr (JList [JList [JInt 1, JInt 2]])),
     (''[{"a": ""}]'', Inr (JList [JObject [(''a'', JStr [])]])),
     (''[{"k": "a,b", "q": "x'' @ [CHR 0x5C, CHR 0x22] @ ''y", "r": "c'' @ [CHR 0x5C] @ ''rd", "p": "plain"}]'',
        Inr (JList [JObject [(''k'', JStr ''a,b''), (''q'', JStr [CHR ''x'', CHR 0x22, CHR ''y'']),
           (''r'', JStr [CHR ''c'', CHR 0x0D, CHR ''d'']), (''p'', JStr ''plain'')]])),
     (''{"a": 1}'' @ [CHR 0x0A] @ ''oops'', Inl ''Extra data: line 2 column 1 (char 9)'')]\<close>

definition sample_loads :: "string \<Rightarrow> string + json" where
  "sample_loads s =
     (case map_of sample_documents s of
        Some r \<Rightarrow> r
      | None \<Rightarrow> Inl ''Expecting value: line 1 column 1 (char 0)'')"

definition sample_lib :: library where
  "sample_lib = \<lparr>json_loads = sample_loads\<rparr>"

text \<open>
  The column of a key as the specification words it: the key itself at the root, the
  prefix, a dot and the key below it. And the text of a joined list: the parts with the
  join string between them.
\<close>

definition dotted :: "string \<Rightarrow> string \<Rightarrow> string" where
  "dotted prefix key = (if prefix = [] then key else prefix @ [CHR ''.''] @ key)"

definition joined :: "string \<Rightarrow> string list \<Rightarrow> string" where
  "joined sep parts =
     (case parts of [] \<Rightarrow> [] | p # ps \<Rightarrow> p @ concat (map (\<lambda>q. sep @ q) ps))"

text \<open>
  The records in which no list that the flattener reaches holds an object: the lists of
  the record itself and of the objects nested in it.
\<close>

fun lists_without_objects :: "(string \<times> json) list \<Rightarrow> bool" where
  "lists_without_objects [] = True"
| "lists_without_objects ((key, JObject obj) # rest) =
     (lists_without_objects obj \<and> lists_without_objects rest)"
| "lists_without_objects ((key, JList vs) # rest) =
     (list_all (\<lambda>v. \<not> is_object v) vs \<and> lists_without_objects rest)"
| "lists_without_objects ((key, v) # rest) = lists_without_objects rest"

definition values_of :: "pydict \<Rightarrow> json set" where
  "values_of d = snd ` set d"

definition object_free :: "pydict \<Rightarrow> bool" where
  "object_free d = (\<forall>v\<in>values_of d. \<not> is_object v)"

text \<open>
  Two records that differ only in the order of their keys, at the top or in an object
  nested in an object; two arrays that differ only in the order of their elements and in
  the order of the keys of their objects.
\<close>

inductive reorder :: "(string \<times> json) list \<Rightarrow> (string \<times> json) list \<Rightarrow> bool" where
  reorder_Nil: "reorder [] []"
| reorder_Cons: "reorder xs ys \<Longrightarrow> reorder (item # xs) (item # ys)"
| reorder_nested: "reorder obj obj' \<Longrightarrow> reorder xs ys \<Longrightarrow>
     reorder ((key, JObject obj) # xs) ((key, JObject obj') # ys)"
| reorder_swap: "reorder (item # item' # xs) (item' # item # xs)"
| reorder_trans: "reorder xs ys \<Longrightarrow> reorder ys zs \<Longrightarrow> reorder xs zs"

code_pred reorder .

inductive reorder_data :: "json list \<Rightarrow> json list \<Rightarrow> bool" where
  reorder_data_Nil: "reorder_data [] []"
| reorder_data_Cons: "reorder_data xs ys \<Longrightarrow> reorder_data (v # xs) (v # ys)"
| reorder_data_object: "reorder obj obj' \<Longrightarrow> reorder_data xs ys \<Longrightarrow>
     reorder_data (JObject obj # xs) (JObject obj' # ys)"
| reorder_data_swap: "reorder_data (v # v' # xs) (v' # v # xs)"
| reorder_data_trans: "reorder_data xs ys \<Longrightarrow> reorder_data ys zs \<Longrightarrow> reorder_data xs zs"

code_pred reorder_data .

text \<open>The union of the keys of the records.\<close>

definition column_set :: "pydict list \<Rightarrow> string set" where
  "column_set records = (\<Union>record\<in>set records. set (keys record))"

text \<open>
  What the specification asks of a conversion with a field list: the header is the list
  as requested, and each row has the cells of the requested fields in that order, an
  absent field giving an empty cell.
\<close>

definition requested_order_csv :: "converter \<Rightarrow> string list \<Rightarrow> pydict list \<Rightarrow> string" where
  "requested_order_csv cfg requested records =
     (if no_header cfg then [] else writeheader (delimiter cfg) requested)
     @ concat (map (\<lambda>record. writerow (delimiter cfg)
          (map (\<lambda>c. cell_text (case map_of record c of Some v \<Rightarrow> v | None \<Rightarrow> JNull)) requested))
        records)"

text \<open>
  Minimal quoting as the specification words it: a cell is written between double quotes,
  with every double quote in it doubled, when it holds the delimiter, a double quote or a
  line break (a line feed or a carriage return), and as it is otherwise; a row is its
  cells separated by the delimiter and ended by one line feed. The row of one empty cell
  is the exception that the library makes: it is written as two double quotes.
\<close>

definition has_special :: "char \<Rightarrow> string \<Rightarrow> bool" where
  "has_special delim s =
     list_ex (\<lambda>c. c = delim \<or> c = CHR 0x22 \<or> c = CHR 0x0A \<or> c = CHR 0x0D) s"

definition double_quotes :: "string \<Rightarrow> string" where
  "double_quotes s = concat (map (\<lambda>c. if c = CHR 0x22 then [c, c] else [c]) s)"

definition enclosed :: "string \<Rightarrow> bool" where
  "enclosed t = (2 \<le> length t \<and> hd t = CHR 0x22 \<and> last t = CHR 0x22)"

definition minimal_cell :: "char \<Rightarrow> string \<Rightarrow> string" where
  "minimal_cell delim s =
     (if has_special delim s then [CHR 0x22] @ double_quotes s @ [CHR 0x22] else s)"

definition minimal_row :: "char \<Rightarrow> string list \<Rightarrow> string" where
  "minimal_row delim row =
     (if row = [[]] then [CHR 0x22, CHR 0x22] else join [delim] (map (minimal_cell delim) row))
     @ [CHR 0x0A]"

text \<open>
  The lines that the NDJSON pass lets through, blank ones and those that decode to an
  object, and the error it raises at line \<open>n\<close> for a line that it does not.
\<close>

definition accepted_line :: "library \<Rightarrow> string \<Rightarrow> bool" where
  "accepted_line lib line =
     (strip line = [] \<or> (case json_loads lib (strip line) of Inr v \<Rightarrow> is_object v | Inl e \<Rightarrow> False))"

definition line_error :: "library \<Rightarrow> nat \<Rightarrow> string \<Rightarrow> error" where
  "line_error lib n line =
     (case json_loads lib (strip line) of
        Inr v \<Rightarrow> ValueError (''Line '' @ str_nat n @ '': Expected JSON object'')
      | Inl e \<Rightarrow> ValueError (''Line '' @ str_nat n @ '': Invalid JSON - '' @ e))"

section \<open>Options that the flattener does not read\<close>

lemma flatten_list_fields_opt:
  "flatten_list (cfg\<lparr>fields_opt := x\<rparr>) nk vs flattened = flatten_list cfg nk vs flattened"
  by (simp add: flatten_list_def)

lemma flatten_items_fields_opt:
  "flatten_items (cfg\<lparr>fields_opt := x\<rparr>) prefix items flattened =
   flatten_items cfg prefix items flattened"
  by (induction cfg prefix items flattened rule: flatten_items.induct)
     (simp_all add: flatten_list_fields_opt)

lemma json_to_records_fields_opt:
  "json_to_records (cfg\<lparr>fields_opt := x\<rparr>) json_data = json_to_records cfg json_data"
  by (induction cfg json_data rule: json_to_records.induct)
     (simp_all add: flatten_object_def flatten_items_fields_opt)

section \<open>An empty field list\<close>

text \<open>
  C10. \<^verbatim>\<open>if self.fields:\<close> is false for the empty list as it is for \<^verbatim>\<open>None\<close>: with
  \<^verbatim>\<open>fields=[]\<close> the projection is skipped, and the conversion does on every input and
  every output stream exactly what it does with no field list.
\<close>

theorem empty_field_list_is_no_filter:
  "convert lib (cfg\<lparr>fields_opt := Some []\<rparr>) input out =
   convert lib (cfg\<lparr>fields_opt := None\<rparr>) input out"
  by (simp add: convert_def project_def write_csv_def Let_def json_to_records_fields_opt
           split: sum.splits)

theorem empty_field_list_is_no_filter_witness:
  \<open>convert sample_lib (default_cfg\<lparr>fields_opt := Some []\<rparr>) ''{"a": 1}'' [] =
   (None, [CHR ''a'', CHR 0x0A, CHR ''1'', CHR 0x0A])\<close>
proof -
  have \<open>convert sample_lib (default_cfg\<lparr>fields_opt := None\<rparr>) ''{"a": 1}'' [] =
      (None, [CHR ''a'', CHR 0x0A, CHR ''1'', CHR 0x0A])\<close>
    by code_simp
  with empty_field_list_is_no_filter [of sample_lib default_cfg \<open>''{"a": 1}''\<close> "[]"]
  show ?thesis by (rule trans)
qed

section \<open>Blank input\<close>

lemma dropWhile_all: "\<forall>c\<in>set s. P c \<Longrightarrow> dropWhile P s = []"
  by (induction s) auto

lemma strip_blank: "\<forall>c\<in>set input. py_isspace c \<Longrightarrow> strip input = []"
  by (simp add: strip_def dropWhile_all)

text \<open>
  C7. An input that is empty or made of whitespace only is converted without an error
  and leaves the output stream as it was: nothing is written, no header and no newline,
  whatever the options are.
\<close>

theorem blank_input_writes_nothing:
  assumes "\<forall>c\<in>set input. py_isspace c"
  shows "convert lib cfg input out = (None, out)"
  using strip_blank [OF assms]
  by (simp add: convert_def parse_json_def project_def write_csv_def
           split: option.splits list.splits)

theorem blank_input_writes_nothing_witness:
  "list_all py_isspace [CHR '' '', CHR 0x0A, CHR 0x09, CHR '' '']
   \<and> convert sample_lib default_cfg [CHR '' '', CHR 0x0A, CHR 0x09, CHR '' ''] [] = (None, [])
   \<and> convert sample_lib default_cfg [] [] = (None, [])"
proof -
  have h: "\<forall>c\<in>set [CHR '' '', CHR 0x0A, CHR 0x09, CHR '' '']. py_isspace c"
    by (simp add: py_isspace_def)
  have e: "\<forall>c\<in>set ([] :: string). py_isspace c"
    by simp
  from h blank_input_writes_nothing [OF h, of sample_lib default_cfg "[]"]
    blank_input_writes_nothing [OF e, of sample_lib default_cfg "[]"]
  show ?thesis unfolding list_all_iff by blast
qed

section \<open>A document that is neither an object nor an array\<close>

lemma ndjson_loop_error:
  "ndjson_loop lib line_num lines records = Inl (ValueError m) \<Longrightarrow> take 5 m = ''Line ''"
proof (induction lines arbitrary: line_num records)
  case Nil
  then show ?case by simp
next
  case (Cons line lines)
  then show ?case
    by (auto simp: Let_def split: if_splits sum.splits json.splits)
qed

text \<open>
  C5. When the trimmed input is decoded as a whole to a value that is neither a list nor
  a dictionary (a number, a string, a boolean or null), the conversion raises
  \<^verbatim>\<open>ValueError("JSON must be an object or array")\<close> and the output stream is left
  as it was. The error is not one of the NDJSON pass, whose errors all begin with
  \<^verbatim>\<open>Line\<close>: that pass is not run.
\<close>

theorem scalar_document_is_rejected:
  assumes "strip input \<noteq> []"
    and "json_loads lib (strip input) = Inr v"
    and "\<not> is_list v" and "\<not> is_object v"
  shows "convert lib cfg input out = (Some (ValueError ''JSON must be an object or array''), out)
       \<and> parse_ndjson lib (strip input) \<noteq> Inl (ValueError ''JSON must be an object or array'')"
proof
  from assms show "convert lib cfg input out =
      (Some (ValueError ''JSON must be an object or array''), out)"
    by (cases v) (simp_all add: convert_def parse_json_def)
next
  show "parse_ndjson lib (strip input) \<noteq> Inl (ValueError ''JSON must be an object or array'')"
  proof
    assume "parse_ndjson lib (strip input) = Inl (ValueError ''JSON must be an object or array'')"
    then have "take 5 ''JSON must be an object or array'' = ''Line ''"
      unfolding parse_ndjson_def by (rule ndjson_loop_error)
    then show False by simp
  qed
qed

theorem scalar_document_is_rejected_witness:
  "strip '' 42 '' \<noteq> []
   \<and> json_loads sample_lib (strip '' 42 '') = Inr (JInt 42)
   \<and> \<not> is_list (JInt 42) \<and> \<not> is_object (JInt 42)
   \<and> convert sample_lib default_cfg '' 42 '' [] =
       (Some (ValueError ''JSON must be an object or array''), [])"
proof -
  have a: "strip '' 42 '' \<noteq> []" by code_simp
  have b: "json_loads sample_lib (strip '' 42 '') = Inr (JInt 42)" by code_simp
  have c: "\<not> is_list (JInt 42)" and d: "\<not> is_object (JInt 42)" by simp_all
  from a b c d scalar_document_is_rejected [OF a b c d, of default_cfg "[]"]
  show ?thesis by blast
qed

section \<open>Objects among the values of a flat record\<close>

lemma values_dict_set: "values_of (dict_set d k v) \<subseteq> insert v (values_of d)"
  by (induction d k v rule: dict_set.induct) (auto simp: values_of_def)

lemma values_dict_update: "values_of (dict_update d other) \<subseteq> values_of d \<union> values_of other"
proof (induction d other rule: dict_update.induct)
  case (1 d)
  then show ?case by simp
next
  case (2 d k v other)
  have "values_of (dict_update (dict_set d k v) other) \<subseteq> values_of (dict_set d k v) \<union> values_of other"
    by (rule 2)
  also have "\<dots> \<subseteq> insert v (values_of d) \<union> values_of other"
    using values_dict_set [of d k v] by blast
  also have "\<dots> = values_of d \<union> values_of ((k, v) # other)"
    by (auto simp: values_of_def)
  finally show ?case by simp
qed

lemma values_index_items: "values_of (index_items nk i vs d) \<subseteq> values_of d \<union> set vs"
proof (induction nk i vs d rule: index_items.induct)
  case (1 nk i flattened)
  then show ?case by simp
next
  case (2 nk i item items flattened)
  then show ?case
    using values_dict_set [of flattened "nk @ ''.'' @ str_nat i" item] by auto
qed

lemma object_free_Nil: "object_free []"
  by (simp add: object_free_def values_of_def)

lemma object_free_dict_set:
  "object_free d \<Longrightarrow> \<not> is_object v \<Longrightarrow> object_free (dict_set d k v)"
  using values_dict_set [of d k v] by (auto simp: object_free_def)

lemma object_free_dict_update:
  "object_free d \<Longrightarrow> object_free other \<Longrightarrow> object_free (dict_update d other)"
  using values_dict_update [of d other] by (auto simp: object_free_def)

lemma object_free_index_items:
  "object_free d \<Longrightarrow> list_all (\<lambda>v. \<not> is_object v) vs \<Longrightarrow> object_free (index_items nk i vs d)"
  using values_index_items [of nk i vs d] by (auto simp: object_free_def list_all_iff)

lemma object_free_flatten_list:
  assumes "object_free d"
    and "list_handling cfg \<noteq> ''index'' \<or> list_all (\<lambda>v. \<not> is_object v) vs"
  shows "object_free (flatten_list cfg nk vs d)"
  using assms
  by (auto simp: flatten_list_def intro: object_free_dict_set object_free_index_items)

lemma object_free_flatten_items:
  assumes "list_handling cfg \<noteq> ''index'' \<or> lists_without_objects items"
    and "object_free flattened"
  shows "object_free (flatten_items cfg prefix items flattened)"
  using assms
proof (induction cfg prefix items flattened rule: flatten_items.induct)
  case (2 cfg prefix key obj rest flattened)
  from 2 have "object_free (flatten_items cfg (new_key prefix key) obj [])"
    by (auto simp: object_free_Nil)
  with 2 show ?case
    by (auto intro: object_free_dict_update)
next
  case (3 cfg prefix key vs rest flattened)
  then show ?case
    by (auto intro: object_free_flatten_list)
qed (auto simp: object_free_dict_set)

text \<open>
  C3, as the code has it. No value of the flat record that \<^verbatim>\<open>_flatten_object\<close> returns
  is an object when the list policy is not \<^verbatim>\<open>index\<close>, or when no list that the
  flattener reaches holds an object.
\<close>

theorem flat_record_has_no_object:
  assumes "list_handling cfg \<noteq> ''index'' \<or> lists_without_objects obj"
  shows "\<forall>(k, v)\<in>set (flatten_object cfg obj prefix). \<not> is_object v"
  using object_free_flatten_items [OF assms object_free_Nil, of prefix]
  by (auto simp: flatten_object_def object_free_def values_of_def)

theorem flat_record_has_no_object_witness:
  "lists_without_objects [(''a'', JObject [(''b'', JList [JInt 1, JStr ''x''])])]
   \<and> list_all (\<lambda>(k, v). \<not> is_object v)
       (flatten_object (default_cfg\<lparr>list_handling := ''index''\<rparr>)
          [(''a'', JObject [(''b'', JList [JInt 1, JStr ''x''])])] [])
   \<and> flatten_object (default_cfg\<lparr>list_handling := ''index''\<rparr>)
          [(''a'', JObject [(''b'', JList [JInt 1, JStr ''x''])])] [] =
       [(''a.b.0'', JInt 1), (''a.b.1'', JStr ''x'')]"
proof -
  have h: "lists_without_objects [(''a'', JObject [(''b'', JList [JInt 1, JStr ''x''])])]"
    by simp
  have e: "flatten_object (default_cfg\<lparr>list_handling := ''index''\<rparr>)
          [(''a'', JObject [(''b'', JList [JInt 1, JStr ''x''])])] [] =
       [(''a.b.0'', JInt 1), (''a.b.1'', JStr ''x'')]"
    by code_simp
  from h e flat_record_has_no_object [OF disjI2 [OF h], of "default_cfg\<lparr>list_handling := ''index''\<rparr>" "[]"]
  show ?thesis unfolding list_all_iff by blast
qed

text \<open>
  The claim as it was stated fails under \<^verbatim>\<open>index\<close>, which stores the elements of a
  list unflattened: for the record \<^verbatim>\<open>{"a": [{"b": 1}]}\<close> the column \<^verbatim>\<open>a.0\<close> holds the
  object itself.
\<close>

theorem index_policy_keeps_objects:
  "flatten_object (default_cfg\<lparr>list_handling := ''index''\<rparr>)
     [(''a'', JList [JObject [(''b'', JInt 1)]])] [] = [(''a.0'', JObject [(''b'', JInt 1)])]
   \<and> is_object (JObject [(''b'', JInt 1)])"
  by code_simp

section \<open>Elements of a top-level array that are not objects\<close>

lemma json_to_records_length: "length (json_to_records cfg json_data) = length json_data"
  by (induction cfg json_data rule: json_to_records.induct) simp_all

lemma json_to_records_nth:
  "i < length json_data \<Longrightarrow> \<not> is_object (json_data ! i) \<Longrightarrow>
   json_to_records cfg json_data ! i = wrap_value (json_data ! i)"
proof (induction cfg json_data arbitrary: i rule: json_to_records.induct)
  case (1 cfg)
  then show ?case by simp
next
  case (2 cfg obj json_data)
  then show ?case by (cases i) simp_all
qed (case_tac i; simp)+

lemma index_items_head:
  "\<exists>v' d'. index_items nk i vs ((k, v) # d) = (k, v') # d'"
  by (induction vs arbitrary: i v d) auto

lemma index_items_not_wrapped: "index_items nk 0 vs [] \<noteq> [(nk, v)]"
proof (cases vs)
  case Nil
  then show ?thesis by simp
next
  case (Cons x xs)
  obtain v' d' where "index_items nk (Suc 0) xs [(nk @ ''.'' @ str_nat 0, x)] = (nk @ ''.'' @ str_nat 0, v') # d'"
    using index_items_head by blast
  with Cons show ?thesis by auto
qed

lemma flatten_wrapped:
  assumes "\<not> is_object e"
  shows "wrap_value e = flatten_object cfg (wrap_value e) [] \<longleftrightarrow>
   \<not> is_list e \<or> (list_handling cfg \<noteq> ''join'' \<and> list_handling cfg \<noteq> ''index'')"
  using assms index_items_not_wrapped [of "''value''"]
    index_items_not_wrapped [of "''value''", THEN not_sym]
  by (cases e) (auto simp: flatten_object_def wrap_value_def new_key_def flatten_list_def)

text \<open>
  C2, as the code has it. An element of the top-level array that is not an object gives
  the record \<^verbatim>\<open>{"value": element}\<close> at its position, and this record is not passed to
  \<^verbatim>\<open>_flatten_object\<close>. It is what flattening \<^verbatim>\<open>{"value": element}\<close> would give
  exactly when the element is not a list, or the list policy is neither \<^verbatim>\<open>join\<close> nor
  \<^verbatim>\<open>index\<close>.
\<close>

theorem non_object_element_is_wrapped:
  assumes "i < length json_data" and "\<not> is_object (json_data ! i)"
  shows "length (json_to_records cfg json_data) = length json_data
     \<and> json_to_records cfg json_data ! i = [(''value'', json_data ! i)]
     \<and> (json_to_records cfg json_data ! i =
          flatten_object cfg [(''value'', json_data ! i)] [] \<longleftrightarrow>
        \<not> is_list (json_data ! i)
          \<or> (list_handling cfg \<noteq> ''join'' \<and> list_handling cfg \<noteq> ''index''))"
  using json_to_records_nth [OF assms, of cfg] flatten_wrapped [OF assms(2), of cfg]
  by (simp add: json_to_records_length wrap_value_def)

theorem non_object_element_is_wrapped_witness:
  "json_to_records default_cfg [JObject [(''a'', JInt 1)], JInt 7, JList [JNull]] ! 1 =
     [(''value'', JInt 7)]
   \<and> json_to_records default_cfg [JObject [(''a'', JInt 1)], JInt 7, JList [JNull]] ! 1 =
     flatten_object default_cfg [(''value'', JInt 7)] []
   \<and> json_to_records default_cfg [JObject [(''a'', JInt 1)], JInt 7, JList [JNull]] ! 2 =
     [(''value'', JList [JNull])]
   \<and> json_to_records default_cfg [JObject [(''a'', JInt 1)], JInt 7, JList [JNull]] ! 2 \<noteq>
     flatten_object default_cfg [(''value'', JList [JNull])] []"
proof -
  let ?data = "[JObject [(''a'', JInt 1)], JInt 7, JList [JNull]]"
  have a: "1 < length ?data" and b: "\<not> is_object (?data ! 1)" by simp_all
  have c: "2 < length ?data" and d: "\<not> is_object (?data ! 2)" by simp_all
  have j: "list_handling default_cfg = ''join''" by (simp add: default_cfg_def)
  from non_object_element_is_wrapped [OF a b, of default_cfg]
       non_object_element_is_wrapped [OF c d, of default_cfg] j
  show ?thesis by (simp add: wrap_value_def)
qed

text \<open>
  The claim as it was stated fails for an element that is a list: for the array
  \<^verbatim>\<open>[[1, 2]]\<close> the record is \<^verbatim>\<open>{"value": [1, 2]}\<close>, where flattening it under
  \<^verbatim>\<open>join\<close> would give \<^verbatim>\<open>{"value": "1|2"}\<close>; the cell written is \<^verbatim>\<open>"[1, 2]"\<close>.
\<close>

theorem list_element_is_not_flattened:
  \<open>json_to_records default_cfg [JList [JInt 1, JInt 2]] = [[(''value'', JList [JInt 1, JInt 2])]]
   \<and> flatten_object default_cfg [(''value'', JList [JInt 1, JInt 2])] [] =
       [(''value'', JStr ''1|2'')]
   \<and> convert sample_lib default_cfg ''[[1, 2]]'' [] =
       (None, ''value'' @ [CHR 0x0A, CHR 0x22] @ ''[1, 2]'' @ [CHR 0x22, CHR 0x0A])\<close>
  by code_simp

section \<open>Keys and lookups of the dictionary that the flattener fills\<close>

lemma keys_Nil: "keys [] = []"
  by (simp add: keys_def)

lemma keys_Cons: "keys (p # d) = fst p # keys d"
  by (simp add: keys_def)

lemma map_of_dict_set: "map_of (dict_set d k v) = (map_of d)(k \<mapsto> v)"
  by (induction d k v rule: dict_set.induct) auto

lemma keys_dict_set: "set (keys (dict_set d k v)) = insert k (set (keys d))"
  by (induction d k v rule: dict_set.induct) (auto simp: keys_def)

lemma keys_dict_update: "set (keys (dict_update d other)) = set (keys d) \<union> set (keys other)"
  by (induction d other rule: dict_update.induct) (simp_all add: keys_dict_set keys_Nil keys_Cons)

lemma map_of_dict_update_other:
  "x \<notin> set (keys other) \<Longrightarrow> map_of (dict_update d other) x = map_of d x"
  by (induction d other rule: dict_update.induct) (simp_all add: map_of_dict_set keys_Cons)

lemma keys_index_items:
  "set (keys (index_items nk i vs d)) = set (keys d) \<union> set (keys (index_items nk i vs []))"
proof (induction vs arbitrary: i d)
  case Nil
  then show ?case by (simp add: keys_def)
next
  case (Cons v vs)
  have "set (keys (index_items nk i (v # vs) d)) =
      insert (nk @ ''.'' @ str_nat i) (set (keys d)) \<union> set (keys (index_items nk (Suc i) vs []))"
    using Cons [of "Suc i" "dict_set d (nk @ ''.'' @ str_nat i) v"] by (simp add: keys_dict_set)
  moreover have "set (keys (index_items nk i (v # vs) [])) =
      insert (nk @ ''.'' @ str_nat i) (set (keys (index_items nk (Suc i) vs [])))"
    using Cons [of "Suc i" "[(nk @ ''.'' @ str_nat i, v)]"] by (simp add: keys_def)
  ultimately show ?case by auto
qed

lemma map_of_index_items_other:
  "x \<notin> set (keys (index_items nk i vs [])) \<Longrightarrow> map_of (index_items nk i vs d) x = map_of d x"
proof (induction vs arbitrary: i d)
  case Nil
  then show ?case by simp
next
  case (Cons v vs)
  have k: "set (keys (index_items nk i (v # vs) [])) =
      insert (nk @ ''.'' @ str_nat i) (set (keys (index_items nk (Suc i) vs [])))"
    using keys_index_items [of nk "Suc i" vs "[(nk @ ''.'' @ str_nat i, v)]"] by (simp add: keys_def)
  with Cons.prems have "x \<noteq> nk @ ''.'' @ str_nat i"
    and "x \<notin> set (keys (index_items nk (Suc i) vs []))" by auto
  then show ?case using Cons.IH [of "Suc i" "dict_set d (nk @ ''.'' @ str_nat i) v"]
    by (simp add: map_of_dict_set)
qed

lemma keys_flatten_list:
  "set (keys (flatten_list cfg nk vs d)) = set (keys d) \<union> set (keys (flatten_list cfg nk vs []))"
  by (simp add: flatten_list_def keys_dict_set keys_Nil keys_Cons keys_index_items [of nk 0 vs d])

lemma map_of_flatten_list_other:
  assumes "x \<notin> set (keys (flatten_list cfg nk vs []))"
  shows "map_of (flatten_list cfg nk vs d) x = map_of d x"
proof (cases "list_handling cfg = ''index'' \<and> list_handling cfg \<noteq> ''join''")
  case True
  with assms have "x \<notin> set (keys (index_items nk 0 vs []))"
    by (simp add: flatten_list_def)
  then have "map_of (index_items nk 0 vs d) x = map_of d x"
    by (rule map_of_index_items_other)
  with True show ?thesis by (simp add: flatten_list_def)
next
  case False
  with assms have "x \<noteq> nk"
    by (auto simp: flatten_list_def keys_Cons keys_Nil split: if_splits)
  with False show ?thesis
    by (auto simp: flatten_list_def map_of_dict_set)
qed

lemma flatten_items_step:
  "flatten_items cfg prefix (item # rest) flattened =
   flatten_items cfg prefix rest (flatten_items cfg prefix [item] flattened)"
proof (cases item)
  case (Pair key v)
  then show ?thesis by (cases v) simp_all
qed

lemma keys_flatten_item:
  "set (keys (flatten_items cfg prefix [item] d)) =
   set (keys d) \<union> set (keys (flatten_items cfg prefix [item] []))"
proof (cases item)
  case (Pair key v)
  then show ?thesis
    by (cases v)
       (simp_all add: keys_dict_set keys_dict_update keys_Nil keys_Cons
          keys_flatten_list [of cfg "new_key prefix key" _ d])
qed

lemma map_of_flatten_item_other:
  assumes "x \<notin> set (keys (flatten_items cfg prefix [item] []))"
  shows "map_of (flatten_items cfg prefix [item] d) x = map_of d x"
proof (cases item)
  case (Pair key v)
  with assms show ?thesis
    by (cases v)
       (simp_all add: map_of_dict_set keys_dict_set keys_dict_update keys_Nil keys_Cons
          map_of_dict_update_other map_of_flatten_list_other)
qed

lemma keys_flatten_items:
  "set (keys (flatten_items cfg prefix items d)) =
   set (keys d) \<union> (\<Union>item\<in>set items. set (keys (flatten_items cfg prefix [item] [])))"
proof (induction items arbitrary: d)
  case Nil
  then show ?case by simp
next
  case (Cons item items)
  have "set (keys (flatten_items cfg prefix (item # items) d)) =
      set (keys (flatten_items cfg prefix [item] d)) \<union>
      (\<Union>item\<in>set items. set (keys (flatten_items cfg prefix [item] [])))"
    by (simp only: flatten_items_step [of cfg prefix item items d]
          Cons [of "flatten_items cfg prefix [item] d"])
  also have "set (keys (flatten_items cfg prefix [item] d)) =
      set (keys d) \<union> set (keys (flatten_items cfg prefix [item] []))"
    by (rule keys_flatten_item)
  finally show ?case by (simp add: Un_assoc)
qed

lemma map_of_flatten_items_other:
  assumes "\<forall>item\<in>set items. x \<notin> set (keys (flatten_items cfg prefix [item] []))"
  shows "map_of (flatten_items cfg prefix items d) x = map_of d x"
  using assms
proof (induction items arbitrary: d)
  case Nil
  then show ?case by simp
next
  case (Cons item items)
  have "map_of (flatten_items cfg prefix (item # items) d) x =
      map_of (flatten_items cfg prefix items (flatten_items cfg prefix [item] d)) x"
    by (simp only: flatten_items_step [of cfg prefix item items d])
  also have "\<dots> = map_of (flatten_items cfg prefix [item] d) x"
    using Cons by simp
  also have "\<dots> = map_of d x"
    using Cons.prems by (intro map_of_flatten_item_other) simp
  finally show ?case .
qed

section \<open>Lists under the join policy\<close>

lemma new_key_dotted: "new_key prefix key = dotted prefix key"
  by (simp add: new_key_def dotted_def)

lemma join_joined: "join sep parts = joined sep parts"
  by (induction sep parts rule: join.induct) (simp_all add: joined_def)

lemma distinct_dict_set: "distinct (keys d) \<Longrightarrow> distinct (keys (dict_set d k v))"
proof (induction d k v rule: dict_set.induct)
  case (1 k v)
  then show ?case by (simp add: keys_def)
next
  case (2 k' v' d k v)
  then show ?case
    using keys_dict_set [of d k v] by (auto simp: keys_Cons)
qed

lemma distinct_dict_update:
  "distinct (keys d) \<Longrightarrow> distinct (keys (dict_update d other))"
  by (induction d other rule: dict_update.induct) (simp_all add: distinct_dict_set)

lemma distinct_index_items:
  "distinct (keys d) \<Longrightarrow> distinct (keys (index_items nk i vs d))"
  by (induction nk i vs d rule: index_items.induct) (simp_all add: distinct_dict_set)

lemma distinct_flatten_list:
  "distinct (keys d) \<Longrightarrow> distinct (keys (flatten_list cfg nk vs d))"
  by (simp add: flatten_list_def distinct_dict_set distinct_index_items)

lemma distinct_flatten_items:
  "distinct (keys d) \<Longrightarrow> distinct (keys (flatten_items cfg prefix items d))"
  by (induction cfg prefix items d rule: flatten_items.induct)
     (simp_all add: distinct_dict_set distinct_dict_update distinct_flatten_list)

lemma map_of_dict_update_Some:
  "distinct (keys other) \<Longrightarrow> map_of other x = Some v \<Longrightarrow>
   map_of (dict_update d other) x = Some v"
proof (induction d other rule: dict_update.induct)
  case (1 d)
  then show ?case by simp
next
  case (2 d k w other)
  show ?case
  proof (cases "x = k")
    case True
    with 2 have "x \<notin> set (keys other)" and "w = v"
      by (simp_all add: keys_Cons)
    then show ?thesis
      using True by (simp add: map_of_dict_update_other map_of_dict_set)
  next
    case False
    with 2 show ?thesis by (simp add: keys_Cons)
  qed
qed

lemma entry_wins:
  assumes "item \<in> set items"
    and "\<And>d. map_of (flatten_items cfg prefix [item] d) x = Some v"
    and "\<forall>other\<in>set items. other \<noteq> item \<longrightarrow>
           x \<notin> set (keys (flatten_items cfg prefix [other] []))"
  shows "map_of (flatten_items cfg prefix items d) x = Some v"
  using assms(1,3)
proof (induction items arbitrary: d)
  case Nil
  then show ?case by simp
next
  case (Cons first items)
  let ?d = "flatten_items cfg prefix [first] d"
  have step: "flatten_items cfg prefix (first # items) d = flatten_items cfg prefix items ?d"
    by (rule flatten_items_step)
  show ?case
  proof (cases "item \<in> set items")
    case True
    with Cons have "map_of (flatten_items cfg prefix items ?d) x = Some v"
      by simp
    with step show ?thesis by simp
  next
    case False
    with Cons.prems have first: "first = item" by simp
    from False Cons.prems have "\<forall>other\<in>set items.
        x \<notin> set (keys (flatten_items cfg prefix [other] []))"
      by auto
    then have "map_of (flatten_items cfg prefix items ?d) x = map_of ?d x"
      by (rule map_of_flatten_items_other)
    also have "\<dots> = Some v"
      unfolding first by (rule assms(2))
    finally show ?thesis using step by simp
  qed
qed

lemma map_of_flatten_nested_item:
  assumes "map_of (flatten_items cfg (new_key prefix k) inner []) x = Some v"
  shows "map_of (flatten_items cfg prefix [(k, JObject inner)] d) x = Some v"
proof -
  have "distinct (keys (flatten_items cfg (new_key prefix k) inner []))"
    by (rule distinct_flatten_items) (simp add: keys_Nil)
  then show ?thesis
    using assms by (simp add: map_of_dict_update_Some)
qed

lemma py_str_scalars:
  "py_str (JStr s) = s"
  "py_str JNull = ''None''"
  "py_str (JBool True) = ''True''"
  "py_str (JBool False) = ''False''"
  "py_str (JFloat r) = r"
  by (simp_all add: py_str_def)

text \<open>
  C8, as the code has it. Under the \<^verbatim>\<open>join\<close> policy an entry \<^verbatim>\<open>key: [v1, ..., vn]\<close>
  of an object gives one value at the column of that key, the string \<^verbatim>\<open>str(v1)\<close>, ...,
  \<^verbatim>\<open>str(vn)\<close> with the join string between them; the column is the key itself at the
  root, and the prefix, a dot and the key in a nested object. It is the value of that
  column in the flat record when no other entry of the object flattens onto the same
  column name, and a column of a nested object is the same column of the enclosing
  record under the same condition. A string element is taken as it is, \<^verbatim>\<open>None\<close>,
  \<^verbatim>\<open>True\<close> and \<^verbatim>\<open>False\<close> and the integers by their Python text.
\<close>

theorem join_policy_gives_one_string:
  assumes "list_handling cfg = ''join''"
  shows "((key, JList vs) \<in> set obj
          \<and> (\<forall>item\<in>set obj. item \<noteq> (key, JList vs) \<longrightarrow>
                dotted prefix key \<notin> set (keys (flatten_object cfg [item] prefix)))
        \<longrightarrow> map_of (flatten_object cfg obj prefix) (dotted prefix key) =
              Some (JStr (joined (join_string cfg) (map py_str vs))))
    \<and> ((k, JObject inner) \<in> set obj
          \<and> map_of (flatten_object cfg inner (dotted prefix k)) column = Some v
          \<and> (\<forall>item\<in>set obj. item \<noteq> (k, JObject inner) \<longrightarrow>
                column \<notin> set (keys (flatten_object cfg [item] prefix)))
        \<longrightarrow> map_of (flatten_object cfg obj prefix) column = Some v)
    \<and> dotted [] key = key
    \<and> dotted (c # prefix) key = (c # prefix) @ [CHR ''.''] @ key
    \<and> py_str (JStr s) = s \<and> py_str JNull = ''None''
    \<and> py_str (JBool True) = ''True'' \<and> py_str (JBool False) = ''False''
    \<and> py_str (JInt 12) = ''12'' \<and> py_str (JInt (- 3)) = ''-3''"
proof (intro conjI impI)
  assume h: "(key, JList vs) \<in> set obj
          \<and> (\<forall>item\<in>set obj. item \<noteq> (key, JList vs) \<longrightarrow>
                dotted prefix key \<notin> set (keys (flatten_object cfg [item] prefix)))"
  have "map_of (flatten_items cfg prefix obj []) (dotted prefix key) =
      Some (JStr (joined (join_string cfg) (map py_str vs)))"
  proof (rule entry_wins)
    show "(key, JList vs) \<in> set obj" using h by simp
  next
    fix d
    show "map_of (flatten_items cfg prefix [(key, JList vs)] d) (dotted prefix key) =
        Some (JStr (joined (join_string cfg) (map py_str vs)))"
      using assms by (simp add: flatten_list_def map_of_dict_set new_key_dotted join_joined)
  next
    show "\<forall>other\<in>set obj. other \<noteq> (key, JList vs) \<longrightarrow>
        dotted prefix key \<notin> set (keys (flatten_items cfg prefix [other] []))"
      using h by (simp add: flatten_object_def)
  qed
  then show "map_of (flatten_object cfg obj prefix) (dotted prefix key) =
      Some (JStr (joined (join_string cfg) (map py_str vs)))"
    by (simp add: flatten_object_def)
next
  assume h: "(k, JObject inner) \<in> set obj
          \<and> map_of (flatten_object cfg inner (dotted prefix k)) column = Some v
          \<and> (\<forall>item\<in>set obj. item \<noteq> (k, JObject inner) \<longrightarrow>
                column \<notin> set (keys (flatten_object cfg [item] prefix)))"
  have "map_of (flatten_items cfg prefix obj []) column = Some v"
  proof (rule entry_wins)
    show "(k, JObject inner) \<in> set obj" using h by simp
  next
    fix d
    from h have "map_of (flatten_items cfg (new_key prefix k) inner []) column = Some v"
      by (simp add: flatten_object_def new_key_dotted)
    then show "map_of (flatten_items cfg prefix [(k, JObject inner)] d) column = Some v"
      by (rule map_of_flatten_nested_item)
  next
    show "\<forall>other\<in>set obj. other \<noteq> (k, JObject inner) \<longrightarrow>
        column \<notin> set (keys (flatten_items cfg prefix [other] []))"
      using h by (simp add: flatten_object_def)
  qed
  then show "map_of (flatten_object cfg obj prefix) column = Some v"
    by (simp add: flatten_object_def)
next
  show "py_str (JInt 12) = ''12''" and "py_str (JInt (- 3)) = ''-3''"
    by code_simp+
qed (simp_all add: dotted_def py_str_def)

theorem join_policy_gives_one_string_witness:
  \<open>map_of (flatten_object default_cfg
       [(''id'', JInt 3), (''tags'', JList [JStr ''x'', JStr ''y''])] []) ''tags'' =
     Some (JStr ''x|y'')
   \<and> map_of (flatten_object default_cfg
       [(''meta'', JObject [(''tags'', JList [JStr ''x'', JNull, JInt 7])]), (''id'', JInt 3)] [])
       ''meta.tags'' = Some (JStr ''x|None|7'')
   \<and> convert sample_lib default_cfg ''{"tags": ["x", "y"]}'' [] =
       (None, ''tags'' @ [CHR 0x0A] @ ''x|y'' @ [CHR 0x0A])\<close>
proof -
  let ?obj = "[(''id'', JInt 3), (''tags'', JList [JStr ''x'', JStr ''y''])]"
  let ?inner = "[(''tags'', JList [JStr ''x'', JNull, JInt 7])]"
  let ?outer = "[(''meta'', JObject ?inner), (''id'', JInt 3)]"
  have a: "list_handling default_cfg = ''join''" by (simp add: default_cfg_def)
  note t = join_policy_gives_one_string [OF a]
  have root: "(''tags'', JList [JStr ''x'', JStr ''y'']) \<in> set ?obj
      \<and> (\<forall>item\<in>set ?obj. item \<noteq> (''tags'', JList [JStr ''x'', JStr ''y'']) \<longrightarrow>
            dotted [] ''tags'' \<notin> set (keys (flatten_object default_cfg [item] [])))"
    by (simp add: flatten_object_def new_key_def dotted_def keys_def)
  have j1: "joined (join_string default_cfg) (map py_str [JStr ''x'', JStr ''y'']) = ''x|y''"
    by code_simp
  from t [where key = "''tags''" and vs = "[JStr ''x'', JStr ''y'']" and obj = ?obj
      and prefix = "[]"] root j1
  have 1: "map_of (flatten_object default_cfg ?obj []) ''tags'' = Some (JStr ''x|y'')"
    by (simp add: dotted_def)
  have below: "(''tags'', JList [JStr ''x'', JNull, JInt 7]) \<in> set ?inner
      \<and> (\<forall>item\<in>set ?inner. item \<noteq> (''tags'', JList [JStr ''x'', JNull, JInt 7]) \<longrightarrow>
            dotted ''meta'' ''tags'' \<notin> set (keys (flatten_object default_cfg [item] ''meta'')))"
    by simp
  have j2: "joined (join_string default_cfg) (map py_str [JStr ''x'', JNull, JInt 7]) = ''x|None|7''"
    by code_simp
  from t [where key = "''tags''" and vs = "[JStr ''x'', JNull, JInt 7]" and obj = ?inner
      and prefix = "''meta''"] below j2
  have 2: "map_of (flatten_object default_cfg ?inner ''meta'') ''meta.tags'' =
      Some (JStr ''x|None|7'')"
    by (simp add: dotted_def)
  have lift: "(''meta'', JObject ?inner) \<in> set ?outer
      \<and> map_of (flatten_object default_cfg ?inner (dotted [] ''meta'')) ''meta.tags'' =
          Some (JStr ''x|None|7'')
      \<and> (\<forall>item\<in>set ?outer. item \<noteq> (''meta'', JObject ?inner) \<longrightarrow>
            ''meta.tags'' \<notin> set (keys (flatten_object default_cfg [item] [])))"
    using 2 by (simp add: flatten_object_def new_key_def dotted_def keys_def)
  from t [where k = "''meta''" and inner = ?inner and obj = ?outer and prefix = "[]"
      and column = "''meta.tags''" and v = "JStr ''x|None|7''"] lift
  have 3: "map_of (flatten_object default_cfg ?outer []) ''meta.tags'' = Some (JStr ''x|None|7'')"
    by blast
  have 4: \<open>convert sample_lib default_cfg ''{"tags": ["x", "y"]}'' [] =
       (None, ''tags'' @ [CHR 0x0A] @ ''x|y'' @ [CHR 0x0A])\<close>
    by code_simp
  from 1 3 4 show ?thesis by blast
qed

text \<open>
  The claim as it was stated fails when another entry flattens onto the column of the
  list: in \<^verbatim>\<open>{"tags": ["x", "y"], "": {"tags": 5}}\<close> the empty key gives an empty prefix,
  the nested \<^verbatim>\<open>tags\<close> lands on the column \<^verbatim>\<open>tags\<close>, and the flat record holds 5
  there, not \<^verbatim>\<open>x|y\<close>.
\<close>

theorem colliding_entry_replaces_joined_list:
  "flatten_object default_cfg
     [(''tags'', JList [JStr ''x'', JStr ''y'']), ([], JObject [(''tags'', JInt 5)])] [] =
   [(''tags'', JInt 5)]
   \<and> flatten_object default_cfg [(''tags'', JList [JStr ''x'', JStr ''y''])] [] =
   [(''tags'', JStr ''x|y'')]"
  by code_simp

section \<open>What the writer emits\<close>

lemma write_rows_concat:
  "write_rows delim fieldnames records out =
   out @ concat (map (dict_writerow delim fieldnames) records)"
  by (induction records arbitrary: out) simp_all

lemma collect_fieldnames_union:
  "collect_fieldnames records fieldnames = fieldnames \<union> column_set records"
  by (induction records arbitrary: fieldnames) (auto simp: column_set_def)

lemma sorted_fieldnames_column_set:
  "sorted_fieldnames records = sorted_list_of_set (column_set records)"
  by (simp add: sorted_fieldnames_def collect_fieldnames_union)

lemma finite_column_set: "finite (column_set records)"
  by (simp add: column_set_def)

lemma write_csv_rows:
  assumes "records \<noteq> []"
  shows "write_csv cfg records out =
     out @ (if no_header cfg then [] else writeheader (delimiter cfg) (sorted_fieldnames records))
         @ concat (map (dict_writerow (delimiter cfg) (sorted_fieldnames records)) records)"
  using assms by (simp add: write_csv_def Let_def write_rows_concat)

text \<open>
  Every key of every record is among the field names that the writer is built with, so
  the check of \<^verbatim>\<open>DictWriter\<close> for keys outside \<^verbatim>\<open>fieldnames\<close> never fails.
\<close>

lemma fieldnames_cover_keys:
  "r \<in> set records \<Longrightarrow> set (keys r) \<subseteq> set (sorted_fieldnames records)"
  by (auto simp: sorted_fieldnames_column_set finite_column_set column_set_def)

section \<open>The columns do not depend on the order of the input\<close>

lemma keys_flatten_Cons:
  "set (keys (flatten_items cfg prefix (item # items) [])) =
   set (keys (flatten_items cfg prefix [item] [])) \<union> set (keys (flatten_items cfg prefix items []))"
  using keys_flatten_items [of cfg prefix "item # items" "[]"]
    keys_flatten_items [of cfg prefix items "[]"]
  by (simp add: keys_Nil)

lemma keys_flatten_nested:
  "set (keys (flatten_items cfg prefix [(key, JObject obj)] [])) =
   set (keys (flatten_items cfg (new_key prefix key) obj []))"
  by (simp add: keys_dict_update keys_Nil)

lemma reorder_keys:
  "reorder xs ys \<Longrightarrow>
   set (keys (flatten_items cfg prefix xs [])) = set (keys (flatten_items cfg prefix ys []))"
proof (induction xs ys arbitrary: prefix rule: reorder.induct)
  case reorder_Nil
  then show ?case by simp
next
  case (reorder_Cons xs ys item)
  have "set (keys (flatten_items cfg prefix (item # xs) [])) =
      set (keys (flatten_items cfg prefix [item] [])) \<union> set (keys (flatten_items cfg prefix xs []))"
    by (rule keys_flatten_Cons)
  also have "\<dots> =
      set (keys (flatten_items cfg prefix [item] [])) \<union> set (keys (flatten_items cfg prefix ys []))"
    by (simp only: reorder_Cons.IH)
  also have "\<dots> = set (keys (flatten_items cfg prefix (item # ys) []))"
    by (rule keys_flatten_Cons [symmetric])
  finally show ?case .
next
  case (reorder_nested obj obj' xs ys key)
  have "set (keys (flatten_items cfg prefix ((key, JObject obj) # xs) [])) =
      set (keys (flatten_items cfg prefix [(key, JObject obj)] []))
        \<union> set (keys (flatten_items cfg prefix xs []))"
    by (rule keys_flatten_Cons)
  also have "\<dots> =
      set (keys (flatten_items cfg (new_key prefix key) obj' []))
        \<union> set (keys (flatten_items cfg prefix ys []))"
    by (simp only: keys_flatten_nested reorder_nested.IH)
  also have "\<dots> =
      set (keys (flatten_items cfg prefix [(key, JObject obj')] []))
        \<union> set (keys (flatten_items cfg prefix ys []))"
    by (simp only: keys_flatten_nested)
  also have "\<dots> = set (keys (flatten_items cfg prefix ((key, JObject obj') # ys) []))"
    by (rule keys_flatten_Cons [symmetric])
  finally show ?case .
next
  case (reorder_swap item item' xs)
  have "set (keys (flatten_items cfg prefix (item # item' # xs) [])) =
      set (keys (flatten_items cfg prefix [item] []))
        \<union> (set (keys (flatten_items cfg prefix [item'] []))
        \<union> set (keys (flatten_items cfg prefix xs [])))"
    by (simp only: keys_flatten_Cons [of cfg prefix item "item' # xs"]
          keys_flatten_Cons [of cfg prefix item' xs])
  also have "\<dots> =
      set (keys (flatten_items cfg prefix [item'] []))
        \<union> (set (keys (flatten_items cfg prefix [item] []))
        \<union> set (keys (flatten_items cfg prefix xs [])))"
    by (rule Un_left_commute)
  also have "\<dots> = set (keys (flatten_items cfg prefix (item' # item # xs) []))"
    by (simp only: keys_flatten_Cons [of cfg prefix item' "item # xs"]
          keys_flatten_Cons [of cfg prefix item xs])
  finally show ?case .
next
  case (reorder_trans xs ys zs)
  then show ?case by simp
qed

lemma column_set_Cons:
  "column_set (record # records) = set (keys record) \<union> column_set records"
  by (simp add: column_set_def)

lemma json_to_records_Cons:
  "\<exists>record. json_to_records cfg (v # json_data) = record # json_to_records cfg json_data"
  by (cases v) simp_all

lemma column_set_records_Cons:
  "column_set (json_to_records cfg (v # json_data)) =
   column_set (json_to_records cfg [v]) \<union> column_set (json_to_records cfg json_data)"
  by (cases v) (simp_all add: column_set_def)

lemma reorder_data_columns:
  "reorder_data xs ys \<Longrightarrow>
   column_set (json_to_records cfg xs) = column_set (json_to_records cfg ys)"
proof (induction xs ys rule: reorder_data.induct)
  case reorder_data_Nil
  then show ?case by simp
next
  case (reorder_data_Cons xs ys v)
  have "column_set (json_to_records cfg (v # xs)) =
      column_set (json_to_records cfg [v]) \<union> column_set (json_to_records cfg xs)"
    by (rule column_set_records_Cons)
  also have "\<dots> = column_set (json_to_records cfg [v]) \<union> column_set (json_to_records cfg ys)"
    by (simp only: reorder_data_Cons.IH)
  also have "\<dots> = column_set (json_to_records cfg (v # ys))"
    by (rule column_set_records_Cons [symmetric])
  finally show ?case .
next
  case (reorder_data_object obj obj' xs ys)
  from reorder_keys [OF reorder_data_object(1), of cfg "[]"]
  have one: "column_set (json_to_records cfg [JObject obj]) =
      column_set (json_to_records cfg [JObject obj'])"
    by (simp add: column_set_def flatten_object_def)
  have "column_set (json_to_records cfg (JObject obj # xs)) =
      column_set (json_to_records cfg [JObject obj]) \<union> column_set (json_to_records cfg xs)"
    by (rule column_set_records_Cons)
  also have "\<dots> =
      column_set (json_to_records cfg [JObject obj']) \<union> column_set (json_to_records cfg ys)"
    by (simp only: one reorder_data_object.IH)
  also have "\<dots> = column_set (json_to_records cfg (JObject obj' # ys))"
    by (rule column_set_records_Cons [symmetric])
  finally show ?case .
next
  case (reorder_data_swap v v' xs)
  have "column_set (json_to_records cfg (v # v' # xs)) =
      column_set (json_to_records cfg [v])
        \<union> (column_set (json_to_records cfg [v']) \<union> column_set (json_to_records cfg xs))"
    by (simp only: column_set_records_Cons [of cfg v "v' # xs"]
          column_set_records_Cons [of cfg v' xs])
  also have "\<dots> =
      column_set (json_to_records cfg [v'])
        \<union> (column_set (json_to_records cfg [v]) \<union> column_set (json_to_records cfg xs))"
    by (rule Un_left_commute)
  also have "\<dots> = column_set (json_to_records cfg (v' # v # xs))"
    by (simp only: column_set_records_Cons [of cfg v' "v # xs"]
          column_set_records_Cons [of cfg v xs])
  finally show ?case .
next
  case (reorder_data_trans xs ys zs)
  then show ?case by simp
qed

section \<open>Columns without a field list\<close>

text \<open>
  The order in which \<^verbatim>\<open>sorted\<close> puts the names: strings are compared character by
  character, by code point, and a proper prefix comes first.
\<close>

lemma string_order_by_code_point:
  "([] :: string) < c # s"
  "\<not> c # s < ([] :: string)"
  "c # s < d # t \<longleftrightarrow> (of_char c :: nat) < of_char d \<or> c = d \<and> s < t"
  by (simp_all add: less_char_def)

lemma json_to_records_empty: "json_to_records cfg json_data = [] \<longleftrightarrow> json_data = []"
  using json_to_records_length [of cfg json_data] by (metis length_0_conv)

lemma convert_unfiltered:
  assumes "fields_opt cfg = None"
    and "parse_json lib input = Inr json_data"
  shows "convert lib cfg input out = (None, write_csv cfg (json_to_records cfg json_data) out)"
  using assms by (simp add: convert_def project_def)

text \<open>
  C6. With no field list, an input that gives at least one record is converted without
  an error, and the columns are the union of the keys of all flattened records in
  ascending order, strings being compared code point by code point: the header, unless it
  is suppressed, is the row of these names, and every data row has its cells in this
  order. The columns are the same for every input that differs only in the order of the
  records or of the keys inside the objects.
\<close>

theorem header_is_sorted_union_of_keys:
  assumes "fields_opt cfg = None"
    and "parse_json lib input = Inr json_data" and "json_data \<noteq> []"
    and "records = json_to_records cfg json_data"
    and "cols = sorted_list_of_set (column_set records)"
  shows "convert lib cfg input out =
      (None, out @ (if no_header cfg then [] else writeheader (delimiter cfg) cols)
                 @ concat (map (dict_writerow (delimiter cfg) cols) records))
    \<and> sorted cols \<and> distinct cols \<and> set cols = column_set records
    \<and> (\<forall>json_data'. reorder_data json_data json_data' \<longrightarrow>
          sorted_list_of_set (column_set (json_to_records cfg json_data')) = cols)"
proof (intro conjI allI impI)
  from assms(3,4) have "records \<noteq> []"
    by (simp add: json_to_records_empty)
  then show "convert lib cfg input out =
      (None, out @ (if no_header cfg then [] else writeheader (delimiter cfg) cols)
                 @ concat (map (dict_writerow (delimiter cfg) cols) records))"
    using convert_unfiltered [OF assms(1,2), of out] assms(4,5)
    by (simp add: write_csv_rows sorted_fieldnames_column_set)
next
  show "sorted cols" and "distinct cols"
    by (simp_all add: assms(5))
next
  show "set cols = column_set records"
    by (simp add: assms(5) finite_column_set)
next
  fix json_data'
  assume "reorder_data json_data json_data'"
  then have "column_set (json_to_records cfg json_data') = column_set records"
    unfolding assms(4) by (rule reorder_data_columns [symmetric])
  then show "sorted_list_of_set (column_set (json_to_records cfg json_data')) = cols"
    by (simp add: assms(5))
qed

theorem header_is_sorted_union_of_keys_witness:
  \<open>convert sample_lib default_cfg ''[{"b": 1}, {"a": 2}]'' [] =
     (None, ''a,b'' @ [CHR 0x0A] @ '',1'' @ [CHR 0x0A] @ ''2,'' @ [CHR 0x0A])
   \<and> sorted_list_of_set (column_set (json_to_records default_cfg
         [JObject [(''a'', JInt 2)], JObject [(''b'', JInt 1)]])) = [''a'', ''b'']\<close>
proof -
  let ?data = "[JObject [(''b'', JInt 1)], JObject [(''a'', JInt 2)]]"
  have a: "fields_opt default_cfg = None" by (simp add: default_cfg_def)
  have b: \<open>parse_json sample_lib ''[{"b": 1}, {"a": 2}]'' = Inr ?data\<close> by code_simp
  have c: "?data \<noteq> []" by simp
  have cols: "sorted_list_of_set (column_set (json_to_records default_cfg ?data)) = [''a'', ''b'']"
    by code_simp
  have rows: "(if no_header default_cfg then [] else writeheader (delimiter default_cfg) [''a'', ''b''])
      @ concat (map (dict_writerow (delimiter default_cfg) [''a'', ''b''])
          (json_to_records default_cfg ?data)) =
      ''a,b'' @ [CHR 0x0A] @ '',1'' @ [CHR 0x0A] @ ''2,'' @ [CHR 0x0A]"
    by code_simp
  have r: "reorder_data ?data [JObject [(''a'', JInt 2)], JObject [(''b'', JInt 1)]]"
    by (rule reorder_data_swap)
  note t = header_is_sorted_union_of_keys [OF a b c refl cols [symmetric], of "[]"]
  from t have \<open>convert sample_lib default_cfg ''[{"b": 1}, {"a": 2}]'' [] =
      (None, [] @ (if no_header default_cfg then []
                   else writeheader (delimiter default_cfg) [''a'', ''b''])
        @ concat (map (dict_writerow (delimiter default_cfg) [''a'', ''b''])
            (json_to_records default_cfg ?data)))\<close>
    by (rule conjunct1)
  then have 1: \<open>convert sample_lib default_cfg ''[{"b": 1}, {"a": 2}]'' [] =
      (None, ''a,b'' @ [CHR 0x0A] @ '',1'' @ [CHR 0x0A] @ ''2,'' @ [CHR 0x0A])\<close>
    by (simp only: rows append_Nil)
  from t r have 2: "sorted_list_of_set (column_set (json_to_records default_cfg
         [JObject [(''a'', JInt 2)], JObject [(''b'', JInt 1)]])) = [''a'', ''b'']"
    by blast
  from 1 2 show ?thesis by (rule conjI)
qed

section \<open>Columns with a field list\<close>

lemma map_of_filter_record:
  "map_of (filter_record record requested acc) c =
     (if c \<in> set requested then Some (case map_of record c of Some v \<Rightarrow> v | None \<Rightarrow> JNull)
      else map_of acc c)"
  by (induction requested arbitrary: acc) (simp_all add: map_of_dict_set)

lemma keys_filter_record:
  "set (keys (filter_record record requested acc)) = set (keys acc) \<union> set requested"
  by (induction requested arbitrary: acc) (simp_all add: keys_dict_set)

lemma column_set_filter_fields:
  "records \<noteq> [] \<Longrightarrow> column_set (filter_fields records requested) = set requested"
proof (induction records)
  case Nil
  then show ?case by simp
next
  case (Cons r records)
  show ?case
  proof (cases "records = []")
    case True
    then show ?thesis
      by (simp add: column_set_def keys_filter_record keys_Nil)
  next
    case False
    with Cons show ?thesis
      by (simp add: column_set_Cons keys_filter_record keys_Nil)
  qed
qed

lemma filter_fields_empty: "filter_fields records requested = [] \<longleftrightarrow> records = []"
  by (cases records) simp_all

lemma dict_writerow_filter_record:
  assumes "set cols \<subseteq> set requested"
  shows "dict_writerow delim cols (filter_record record requested []) =
     writerow delim
       (map (\<lambda>c. cell_text (case map_of record c of Some v \<Rightarrow> v | None \<Rightarrow> JNull)) cols)"
proof -
  have "dict_to_list cols (filter_record record requested []) =
      map (\<lambda>c. case map_of record c of Some v \<Rightarrow> v | None \<Rightarrow> JNull) cols"
    using assms by (auto simp: dict_to_list_def map_of_filter_record)
  then show ?thesis
    by (simp add: dict_writerow_def comp_def)
qed

lemma map_filter_fields:
  "map f (filter_fields records requested) =
   map (\<lambda>record. f (filter_record record requested [])) records"
  by (induction records) simp_all

text \<open>
  C1, as the code has it. With a field list that is not empty, an input that gives at
  least one record is converted without an error, and the columns are the requested
  names without duplicates in ascending order, not in the requested order: the header,
  unless it is suppressed, is the row of these names, and every data row has, in this
  order, the value of the record for each name, or an empty cell where the record has
  none.
\<close>

theorem columns_are_sorted_requested_fields:
  assumes "fields_opt cfg = Some requested" and "requested \<noteq> []"
    and "parse_json lib input = Inr json_data" and "json_data \<noteq> []"
    and "records = json_to_records cfg json_data"
    and "cols = sorted_list_of_set (set requested)"
  shows "convert lib cfg input out =
      (None, out @ (if no_header cfg then [] else writeheader (delimiter cfg) cols)
         @ concat (map (\<lambda>record. writerow (delimiter cfg)
              (map (\<lambda>c. cell_text (case map_of record c of Some v \<Rightarrow> v | None \<Rightarrow> JNull)) cols))
            records))
    \<and> sorted cols \<and> distinct cols \<and> set cols = set requested"
proof (intro conjI)
  from assms(4,5) have ne: "records \<noteq> []"
    by (simp add: json_to_records_empty)
  then have fne: "filter_fields records requested \<noteq> []"
    by (simp add: filter_fields_empty)
  from assms(1,2) have "project cfg records = filter_fields records requested"
    by (cases requested) (simp_all add: project_def)
  with assms(3,5) have "convert lib cfg input out =
      (None, write_csv cfg (filter_fields records requested) out)"
    by (simp add: convert_def)
  moreover have "sorted_fieldnames (filter_fields records requested) = cols"
    using ne by (simp add: sorted_fieldnames_column_set column_set_filter_fields assms(6))
  moreover have "map (dict_writerow (delimiter cfg) cols) (filter_fields records requested) =
      map (\<lambda>record. writerow (delimiter cfg)
              (map (\<lambda>c. cell_text (case map_of record c of Some v \<Rightarrow> v | None \<Rightarrow> JNull)) cols))
        records"
    by (simp add: map_filter_fields dict_writerow_filter_record assms(6))
  ultimately show "convert lib cfg input out =
      (None, out @ (if no_header cfg then [] else writeheader (delimiter cfg) cols)
         @ concat (map (\<lambda>record. writerow (delimiter cfg)
              (map (\<lambda>c. cell_text (case map_of record c of Some v \<Rightarrow> v | None \<Rightarrow> JNull)) cols))
            records))"
    using fne by (simp add: write_csv_rows)
next
  show "sorted cols" and "distinct cols" and "set cols = set requested"
    by (simp_all add: assms(6))
qed

theorem columns_are_sorted_requested_fields_witness:
  \<open>convert sample_lib (default_cfg\<lparr>fields_opt := Some [''z'', ''a'', ''q'', ''z'']\<rparr>)
     ''[{"z": 1, "a": 2}]'' [] =
     (None, ''a,q,z'' @ [CHR 0x0A] @ ''2,,1'' @ [CHR 0x0A])
   \<and> sorted_list_of_set (set [''z'', ''a'', ''q'', ''z'']) = [''a'', ''q'', ''z'']\<close>
proof -
  let ?cfg = "default_cfg\<lparr>fields_opt := Some [''z'', ''a'', ''q'', ''z'']\<rparr>"
  let ?data = "[JObject [(''z'', JInt 1), (''a'', JInt 2)]]"
  have a: "fields_opt ?cfg = Some [''z'', ''a'', ''q'', ''z'']" by simp
  have b: "[''z'', ''a'', ''q'', ''z''] \<noteq> []" by simp
  have c: \<open>parse_json sample_lib ''[{"z": 1, "a": 2}]'' = Inr ?data\<close> by code_simp
  have d: "?data \<noteq> []" by simp
  have cols: "sorted_list_of_set (set [''z'', ''a'', ''q'', ''z'']) = [''a'', ''q'', ''z'']"
    by code_simp
  have rows: "(if no_header ?cfg then [] else writeheader (delimiter ?cfg) [''a'', ''q'', ''z''])
         @ concat (map (\<lambda>record. writerow (delimiter ?cfg)
              (map (\<lambda>c. cell_text (case map_of record c of Some v \<Rightarrow> v | None \<Rightarrow> JNull))
                 [''a'', ''q'', ''z'']))
            (json_to_records ?cfg ?data)) = ''a,q,z'' @ [CHR 0x0A] @ ''2,,1'' @ [CHR 0x0A]"
    by code_simp
  note t = columns_are_sorted_requested_fields [OF a b c d refl cols [symmetric], of "[]"]
  from t have \<open>convert sample_lib ?cfg ''[{"z": 1, "a": 2}]'' [] =
      (None, [] @ (if no_header ?cfg then [] else writeheader (delimiter ?cfg) [''a'', ''q'', ''z''])
         @ concat (map (\<lambda>record. writerow (delimiter ?cfg)
              (map (\<lambda>c. cell_text (case map_of record c of Some v \<Rightarrow> v | None \<Rightarrow> JNull))
                 [''a'', ''q'', ''z'']))
            (json_to_records ?cfg ?data)))\<close>
    by (rule conjunct1)
  then have \<open>convert sample_lib ?cfg ''[{"z": 1, "a": 2}]'' [] =
      (None, ''a,q,z'' @ [CHR 0x0A] @ ''2,,1'' @ [CHR 0x0A])\<close>
    by (simp only: rows append_Nil)
  with cols show ?thesis by simp
qed

text \<open>
  The claim as it was stated fails: for the fields \<^verbatim>\<open>z,a\<close> and the input
  \<^verbatim>\<open>[{"z": 1, "a": 2}]\<close> the output is \<^verbatim>\<open>a,z\<close> and \<^verbatim>\<open>2,1\<close>, where the requested
  order would give \<^verbatim>\<open>z,a\<close> and \<^verbatim>\<open>1,2\<close>.
\<close>

theorem requested_order_is_not_kept:
  \<open>convert sample_lib (default_cfg\<lparr>fields_opt := Some [''z'', ''a'']\<rparr>) ''[{"z": 1, "a": 2}]'' [] =
     (None, ''a,z'' @ [CHR 0x0A] @ ''2,1'' @ [CHR 0x0A])
   \<and> requested_order_csv (default_cfg\<lparr>fields_opt := Some [''z'', ''a'']\<rparr>) [''z'', ''a'']
       (json_to_records default_cfg [JObject [(''z'', JInt 1), (''a'', JInt 2)]]) =
     ''z,a'' @ [CHR 0x0A] @ ''1,2'' @ [CHR 0x0A]\<close>
  by code_simp

section \<open>Quoting of cells\<close>

lemma must_quote_quote: "must_quote delim (CHR 0x22)"
  by (simp add: must_quote_def)

lemma has_special_Nil: "\<not> has_special delim []"
  by (simp add: has_special_def)

lemma has_special_Cons:
  "has_special delim (c # s) \<longleftrightarrow> must_quote delim c \<or> has_special delim s"
  by (simp add: has_special_def must_quote_def)

lemma double_quotes_Nil: "double_quotes [] = []"
  by (simp add: double_quotes_def)

lemma double_quotes_Cons:
  "double_quotes (c # s) = (if c = CHR 0x22 then [c, c] else [c]) @ double_quotes s"
  by (simp add: double_quotes_def)

lemma join_append_data_eq:
  "join_append_data delim s (buf, quoted) =
   (buf @ double_quotes s, quoted \<or> has_special delim s)"
proof (induction s arbitrary: buf quoted)
  case Nil
  then show ?case by (simp add: double_quotes_Nil has_special_Nil)
next
  case (Cons c s)
  show ?case
  proof (cases "must_quote delim c")
    case True
    then show ?thesis
      by (simp add: Cons double_quotes_Cons has_special_Cons)
  next
    case False
    then have "c \<noteq> CHR 0x22"
      using must_quote_quote [of delim] by auto
    with False show ?thesis
      by (simp add: Cons double_quotes_Cons has_special_Cons)
  qed
qed

lemma plain_has_no_quote: "\<not> has_special delim s \<Longrightarrow> CHR 0x22 \<notin> set s"
  by (auto simp: has_special_def list_ex_iff)

lemma double_quotes_plain: "CHR 0x22 \<notin> set s \<Longrightarrow> double_quotes s = s"
  by (induction s) (auto simp: double_quotes_Nil double_quotes_Cons)

lemma csv_field_minimal: "csv_field delim = minimal_cell delim"
proof
  fix s
  show "csv_field delim s = minimal_cell delim s"
    by (simp add: csv_field_def join_append_data_eq minimal_cell_def double_quotes_plain
          plain_has_no_quote)
qed

lemma enclosed_minimal_cell: "enclosed (minimal_cell delim s) \<longleftrightarrow> has_special delim s"
proof (cases "has_special delim s")
  case True
  then show ?thesis by (simp add: minimal_cell_def enclosed_def)
next
  case False
  then have "CHR 0x22 \<notin> set s" by (rule plain_has_no_quote)
  then have "\<not> enclosed s"
    by (cases s) (auto simp: enclosed_def)
  with False show ?thesis by (simp add: minimal_cell_def)
qed

lemma minimal_cell_empty: "minimal_cell delim s = [] \<longleftrightarrow> s = []"
  by (auto simp: minimal_cell_def has_special_Nil)

lemma join_empty: "join [delim] xs = [] \<longleftrightarrow> xs = [] \<or> xs = [[]]"
  by (induction "[delim]" xs rule: join.induct) auto

lemma lone_empty_record:
  "row \<noteq> [] \<and> join [delim] (map (minimal_cell delim) row) = [] \<longleftrightarrow> row = [[]]"
  by (cases row) (auto simp: join_empty minimal_cell_empty)

lemma writerow_minimal: "writerow delim = minimal_row delim"
proof
  fix row
  show "writerow delim row = minimal_row delim row"
    by (simp add: writerow_def minimal_row_def Let_def csv_field_minimal lone_empty_record)
qed

lemma has_special_chars:
  "has_special delim s \<longleftrightarrow>
   (\<exists>c\<in>set s. c = delim \<or> c = CHR 0x22 \<or> c = CHR 0x0A \<or> c = CHR 0x0D)"
  by (simp add: has_special_def list_ex_iff)

text \<open>
  C9, as the code has it. When the conversion writes anything, the header row, unless it
  is suppressed, and every data row are written with minimal quoting: a cell is enclosed
  in double quotes exactly when its text holds the delimiter, a double quote, a line feed
  or a carriage return; a double quote inside a quoted cell is doubled; each row ends
  with one line feed. The one exception is a row that consists of a single empty cell,
  which is written as two double quotes.
\<close>

theorem cells_are_quoted_minimally:
  assumes "parse_json lib input = Inr json_data"
    and "records = project cfg (json_to_records cfg json_data)"
    and "records \<noteq> []"
    and "cols = sorted_fieldnames records"
  shows "convert lib cfg input out =
      (None, out @ (if no_header cfg then [] else minimal_row (delimiter cfg) cols)
         @ concat (map (\<lambda>r. minimal_row (delimiter cfg) (map cell_text (dict_to_list cols r)))
             records))
    \<and> (enclosed (minimal_cell (delimiter cfg) s) \<longleftrightarrow>
         (\<exists>c\<in>set s. c = delimiter cfg \<or> c = CHR 0x22 \<or> c = CHR 0x0A \<or> c = CHR 0x0D))
    \<and> minimal_cell (delimiter cfg) s =
         (if \<exists>c\<in>set s. c = delimiter cfg \<or> c = CHR 0x22 \<or> c = CHR 0x0A \<or> c = CHR 0x0D
          then [CHR 0x22] @ concat (map (\<lambda>c. if c = CHR 0x22 then [c, c] else [c]) s) @ [CHR 0x22]
          else s)
    \<and> minimal_row (delimiter cfg) row =
         (if row = [[]] then [CHR 0x22, CHR 0x22]
          else join [delimiter cfg] (map (minimal_cell (delimiter cfg)) row)) @ [CHR 0x0A]"
proof (intro conjI)
  have "convert lib cfg input out = (None, write_csv cfg records out)"
    using assms(1,2) by (simp add: convert_def)
  also have "write_csv cfg records out =
      out @ (if no_header cfg then [] else writeheader (delimiter cfg) cols)
          @ concat (map (dict_writerow (delimiter cfg) cols) records)"
    unfolding assms(4) using assms(3) by (rule write_csv_rows)
  also have "writeheader (delimiter cfg) cols = minimal_row (delimiter cfg) cols"
    by (simp add: writeheader_def writerow_minimal)
  also have "dict_writerow (delimiter cfg) cols =
      (\<lambda>r. minimal_row (delimiter cfg) (map cell_text (dict_to_list cols r)))"
    by (rule ext) (simp add: dict_writerow_def writerow_minimal)
  finally show "convert lib cfg input out =
      (None, out @ (if no_header cfg then [] else minimal_row (delimiter cfg) cols)
         @ concat (map (\<lambda>r. minimal_row (delimiter cfg) (map cell_text (dict_to_list cols r)))
             records))" .
next
  show "enclosed (minimal_cell (delimiter cfg) s) \<longleftrightarrow>
         (\<exists>c\<in>set s. c = delimiter cfg \<or> c = CHR 0x22 \<or> c = CHR 0x0A \<or> c = CHR 0x0D)"
    by (simp add: enclosed_minimal_cell has_special_chars)
next
  show "minimal_cell (delimiter cfg) s =
         (if \<exists>c\<in>set s. c = delimiter cfg \<or> c = CHR 0x22 \<or> c = CHR 0x0A \<or> c = CHR 0x0D
          then [CHR 0x22] @ concat (map (\<lambda>c. if c = CHR 0x22 then [c, c] else [c]) s) @ [CHR 0x22]
          else s)"
    by (simp add: minimal_cell_def has_special_chars double_quotes_def)
next
  show "minimal_row (delimiter cfg) row =
         (if row = [[]] then [CHR 0x22, CHR 0x22]
          else join [delimiter cfg] (map (minimal_cell (delimiter cfg)) row)) @ [CHR 0x0A]"
    by (simp add: minimal_row_def)
qed

theorem cells_are_quoted_minimally_witness:
  \<open>convert sample_lib default_cfg
     (''[{"k": "a,b", "q": "x'' @ [CHR 0x5C, CHR 0x22] @ ''y", "r": "c'' @ [CHR 0x5C] @ ''rd", "p": "plain"}]'') [] =
     (None, ''k,p,q,r'' @ [CHR 0x0A, CHR 0x22] @ ''a,b'' @ [CHR 0x22] @ '',plain,''
        @ [CHR 0x22, CHR ''x'', CHR 0x22, CHR 0x22, CHR ''y'', CHR 0x22, CHR '','']
        @ [CHR 0x22, CHR ''c'', CHR 0x0D, CHR ''d'', CHR 0x22, CHR 0x0A])
   \<and> enclosed (minimal_cell CHR '','' ''a,b'')
   \<and> \<not> enclosed (minimal_cell CHR '','' ''plain'')\<close>
proof -
  let ?input = \<open>''[{"k": "a,b", "q": "x'' @ [CHR 0x5C, CHR 0x22] @ ''y", "r": "c'' @ [CHR 0x5C] @ ''rd", "p": "plain"}]''\<close>
  let ?data = "[JObject [(''k'', JStr ''a,b''), (''q'', JStr [CHR ''x'', CHR 0x22, CHR ''y'']),
           (''r'', JStr [CHR ''c'', CHR 0x0D, CHR ''d'']), (''p'', JStr ''plain'')]]"
  let ?records = "project default_cfg (json_to_records default_cfg ?data)"
  have a: "parse_json sample_lib ?input = Inr ?data" by code_simp
  have b: "?records \<noteq> []" by code_simp
  have cols: "sorted_fieldnames ?records = [''k'', ''p'', ''q'', ''r'']" by code_simp
  have d: "delimiter default_cfg = CHR '',''" by (simp add: default_cfg_def)
  have rows: "(if no_header default_cfg then []
        else minimal_row (delimiter default_cfg) [''k'', ''p'', ''q'', ''r''])
      @ concat (map (\<lambda>r. minimal_row (delimiter default_cfg)
          (map cell_text (dict_to_list [''k'', ''p'', ''q'', ''r''] r))) ?records) =
      ''k,p,q,r'' @ [CHR 0x0A, CHR 0x22] @ ''a,b'' @ [CHR 0x22] @ '',plain,''
        @ [CHR 0x22, CHR ''x'', CHR 0x22, CHR 0x22, CHR ''y'', CHR 0x22, CHR '','']
        @ [CHR 0x22, CHR ''c'', CHR 0x0D, CHR ''d'', CHR 0x22, CHR 0x0A]"
    by code_simp
  note t = cells_are_quoted_minimally [OF a refl b cols [symmetric], of "[]"]
  from t have "convert sample_lib default_cfg ?input [] =
      (None, [] @ (if no_header default_cfg then []
        else minimal_row (delimiter default_cfg) [''k'', ''p'', ''q'', ''r''])
      @ concat (map (\<lambda>r. minimal_row (delimiter default_cfg)
          (map cell_text (dict_to_list [''k'', ''p'', ''q'', ''r''] r))) ?records))"
    by (rule conjunct1)
  then have 1: "convert sample_lib default_cfg ?input [] =
      (None, ''k,p,q,r'' @ [CHR 0x0A, CHR 0x22] @ ''a,b'' @ [CHR 0x22] @ '',plain,''
        @ [CHR 0x22, CHR ''x'', CHR 0x22, CHR 0x22, CHR ''y'', CHR 0x22, CHR '','']
        @ [CHR 0x22, CHR ''c'', CHR 0x0D, CHR ''d'', CHR 0x22, CHR 0x0A])"
    by (simp only: rows append_Nil)
  from t [where s = "''a,b''"]
  have "enclosed (minimal_cell (delimiter default_cfg) ''a,b'') \<longleftrightarrow>
      (\<exists>c\<in>set ''a,b''. c = delimiter default_cfg \<or> c = CHR 0x22 \<or> c = CHR 0x0A \<or> c = CHR 0x0D)"
    by blast
  then have 2: "enclosed (minimal_cell CHR '','' ''a,b'')"
    by (simp add: d)
  from t [where s = "''plain''"]
  have "enclosed (minimal_cell (delimiter default_cfg) ''plain'') \<longleftrightarrow>
      (\<exists>c\<in>set ''plain''. c = delimiter default_cfg \<or> c = CHR 0x22 \<or> c = CHR 0x0A \<or> c = CHR 0x0D)"
    by blast
  then have 3: "\<not> enclosed (minimal_cell CHR '','' ''plain'')"
    by (simp add: d)
  from 1 2 3 show ?thesis by blast
qed

text \<open>
  The claim as it was stated fails for a table of one column: the empty string holds no
  delimiter, no double quote and no line break, and for \<^verbatim>\<open>[{"a": ""}]\<close> its cell is
  written as \<^verbatim>\<open>""\<close>.
\<close>

theorem lone_empty_cell_is_quoted:
  \<open>convert sample_lib default_cfg ''[{"a": ""}]'' [] =
     (None, [CHR ''a'', CHR 0x0A, CHR 0x22, CHR 0x22, CHR 0x0A])
   \<and> dict_to_list [''a''] [(''a'', JStr [])] = [JStr []]
   \<and> cell_text (JStr []) = []
   \<and> \<not> has_special (delimiter default_cfg) []\<close>
  by code_simp

section \<open>Errors of the NDJSON pass\<close>

lemma ndjson_loop_first_offender:
  assumes "i < length lines"
    and "\<forall>j<i. accepted_line lib (lines ! j)"
    and "\<not> accepted_line lib (lines ! i)"
  shows "ndjson_loop lib line_num lines records = Inl (line_error lib (line_num + i) (lines ! i))"
  using assms
proof (induction lines arbitrary: i line_num records)
  case Nil
  then show ?case by simp
next
  case (Cons line lines)
  show ?case
  proof (cases i)
    case 0
    with Cons.prems(3) show ?thesis
      by (auto simp: accepted_line_def line_error_def Let_def split: sum.splits json.splits)
  next
    case (Suc k)
    with Cons.prems have k: "k < length lines" "\<forall>j<k. accepted_line lib (lines ! j)"
      "\<not> accepted_line lib (lines ! k)" and first: "accepted_line lib line"
      by auto
    have "ndjson_loop lib (Suc line_num) lines recs =
        Inl (line_error lib (Suc line_num + k) (lines ! k))" for recs
      using k by (rule Cons.IH)
    with first Suc show ?thesis
      by (auto simp: accepted_line_def Let_def split: sum.splits json.splits)
  qed
qed

lemma ndjson_loop_all_accepted:
  assumes "\<forall>line\<in>set lines. accepted_line lib line"
  shows "\<exists>records'. ndjson_loop lib line_num lines records = Inr records'"
  using assms
proof (induction lines arbitrary: line_num records)
  case Nil
  then show ?case by simp
next
  case (Cons line lines)
  then show ?case
    by (auto simp: accepted_line_def Let_def split: sum.splits json.splits)
qed

text \<open>
  When the trimmed input does not decode as a whole, the pass stops at the first line that
  is neither blank nor an object, nothing is written, and the message carries the number
  of that line counted from 1 in the trimmed input.
\<close>

lemma dropWhile_right_trimmed:
  "xs = [] \<or> \<not> P (hd xs) \<Longrightarrow>
   dropWhile P (rev (dropWhile P (rev xs))) = rev (dropWhile P (rev xs))"
proof (induction xs rule: rev_induct)
  case Nil
  then show ?case by simp
next
  case (snoc y ys)
  show ?case
  proof (cases "P y")
    case False
    with snoc.prems show ?thesis
      by (cases ys) auto
  next
    case True
    show ?thesis
    proof (cases ys)
      case Nil
      with True show ?thesis by simp
    next
      case (Cons z zs)
      with snoc.prems have "\<not> P (hd ys)" by simp
      with snoc.IH True show ?thesis by simp
    qed
  qed
qed

lemma strip_strip: "strip (strip s) = strip s"
proof -
  let ?t = "dropWhile py_isspace s"
  have "?t = [] \<or> \<not> py_isspace (hd ?t)"
    using hd_dropWhile [of py_isspace s] by blast
  then have "dropWhile py_isspace (strip s) = strip s"
    unfolding strip_def by (rule dropWhile_right_trimmed)
  then have "strip (strip s) = rev (dropWhile py_isspace (rev (strip s)))"
    by (simp add: strip_def)
  also have "\<dots> = strip s"
    by (simp add: strip_def dropWhile_idem)
  finally show ?thesis .
qed

lemma ndjson_error_names_line_of_trimmed_input:
  assumes "strip input \<noteq> []"
    and "json_loads lib (strip input) = Inl e"
    and "lines = split_lines (strip input)"
    and "i < length lines"
    and "\<forall>j<i. accepted_line lib (lines ! j)"
    and "\<not> accepted_line lib (lines ! i)"
  shows "convert lib cfg input out = (Some (line_error lib (Suc i) (lines ! i)), out)"
proof -
  have "parse_ndjson lib (strip input) = Inl (line_error lib (1 + i) (lines ! i))"
    unfolding parse_ndjson_def strip_strip assms(3) [symmetric]
    using assms(4-6) by (rule ndjson_loop_first_offender)
  with assms(1,2) show ?thesis
    by (simp add: convert_def parse_json_def)
qed

text \<open>
  C4. The number in the message is counted after \<^verbatim>\<open>strip()\<close>, so blank lines at the
  head of the input are not counted: for an input whose first line is empty, whose second
  line is \<^verbatim>\<open>{"a": 1}\<close> and whose third line is \<^verbatim>\<open>oops\<close>, the error names line 2,
  where the line that does not decode is line 3 of the input.
\<close>

theorem line_number_counts_from_trimmed_input:
  \<open>convert sample_lib default_cfg ([CHR 0x0A] @ ''{"a": 1}'' @ [CHR 0x0A] @ ''oops'') [] =
     (Some (ValueError ''Line 2: Invalid JSON - Expecting value: line 1 column 1 (char 0)''), [])
   \<and> split_lines ([CHR 0x0A] @ ''{"a": 1}'' @ [CHR 0x0A] @ ''oops'') = [[], ''{"a": 1}'', ''oops'']
   \<and> accepted_line sample_lib []
   \<and> accepted_line sample_lib ''{"a": 1}''
   \<and> \<not> accepted_line sample_lib ''oops''\<close>
  by code_simp

end
